theory Spec2Isabelle
  imports Complex_Main
begin

section \<open>Radial music visualizer: the analysis and rendering pipeline\<close>

text \<open>
  A shallow embedding of \<^verbatim>\<open>music_visualizer.py\<close>. Numbers are modelled over the reals:
  the float32/float64 arithmetic of NumPy is idealised (every \<^verbatim>\<open>astype(np.float32)\<close> is
  the identity, no rounding, no overflow, no NaN). Comparisons, index computations,
  list lengths, error branches and the order of draw calls are as the source has them.
  Library functions of NumPy, PIL and MoviePy are modelled by their documented behaviour.
\<close>

subsection \<open>Errors\<close>

datatype py_error =
  ValueError | IndexError | AttributeError | ZeroDivisionError | OverflowError

subsection \<open>Integers from floats\<close>

text \<open>Python's \<^verbatim>\<open>int(x)\<close> on a float truncates toward zero.\<close>

definition py_int :: "real \<Rightarrow> int" where
  "py_int x = (if 0 \<le> x then \<lfloor>x\<rfloor> else \<lceil>x\<rceil>)"

text \<open>Python 3's \<^verbatim>\<open>round(x)\<close>: to the nearest integer, a tie to the even one.\<close>

definition py_round :: "real \<Rightarrow> int" where
  "py_round x =
     (let f = \<lfloor>x\<rfloor>; d = x - real_of_int f
      in if d < 1 / 2 then f
         else if 1 / 2 < d then f + 1
         else if even f then f else f + 1)"

subsection \<open>Floating-point numbers\<close>

text \<open>
  IEEE 754 binary formats with \<open>p\<close> significant bits and least exponent \<open>emin\<close> of the unit
  in the last place. A float is a real; \<open>round_float\<close> rounds a real to the nearest float,
  a tie to the one with an even significand. Overflow is not part of \<open>round_float\<close>: a
  result of magnitude \<open>2 ^ 1024\<close> (float64) or \<open>2 ^ 128\<close> (float32) or more stands for an
  infinity and is handled where it is produced.
\<close>

definition float_exp :: "real \<Rightarrow> int" where
  "float_exp x = \<lfloor>log 2 \<bar>x\<bar>\<rfloor>"

definition float_ulp :: "nat \<Rightarrow> int \<Rightarrow> real \<Rightarrow> real" where
  "float_ulp p emin x = 2 powi (max (float_exp x - int p + 1) emin)"

definition round_float :: "nat \<Rightarrow> int \<Rightarrow> real \<Rightarrow> real" where
  "round_float p emin x =
     (if x = 0 then 0
      else real_of_int (py_round (x / float_ulp p emin x)) * float_ulp p emin x)"

text \<open>float64 (Python's \<^verbatim>\<open>float\<close>) and float32.\<close>

definition fl64 :: "real \<Rightarrow> real" where
  "fl64 = round_float 53 (- 1074)"

definition fl32 :: "real \<Rightarrow> real" where
  "fl32 = round_float 24 (- 149)"

definition fl64_finite :: "real \<Rightarrow> bool" where
  "fl64_finite x = (\<bar>x\<bar> < 2 ^ 1024)"

text \<open>
  An operand of a float operation: a float is itself, a Python \<^verbatim>\<open>int\<close> is converted to the
  nearest float, with \<^verbatim>\<open>OverflowError\<close> when it is too large.
\<close>

definition as_float :: "real \<Rightarrow> py_error + real" where
  "as_float x = (if fl64_finite (fl64 x) then Inr (fl64 x) else Inl OverflowError)"

text \<open>\<^verbatim>\<open>a / b\<close> on Python \<^verbatim>\<open>int\<close>s: the quotient, correctly rounded.\<close>

definition int_truediv :: "int \<Rightarrow> int \<Rightarrow> py_error + real" where
  "int_truediv a b =
     (if b = 0 then Inl ZeroDivisionError
      else if fl64_finite (fl64 (real_of_int a / real_of_int b))
      then Inr (fl64 (real_of_int a / real_of_int b))
      else Inl OverflowError)"

subsection \<open>Band edge calculator\<close>

text \<open>
  \<^verbatim>\<open>np.geomspace(start, stop, num)\<close>: \<^verbatim>\<open>num\<close> points of a geometric progression from
  \<^verbatim>\<open>start\<close> to \<^verbatim>\<open>stop\<close>. NumPy raises \<^verbatim>\<open>ValueError\<close> for a negative \<^verbatim>\<open>num\<close> and for a zero
  endpoint. It computes the points as powers of ten in float64 and then overwrites the
  first with \<^verbatim>\<open>start\<close> and, for \<^verbatim>\<open>num > 1\<close>, the last with \<^verbatim>\<open>stop\<close>: the end points are
  exact, the points in between are modelled by their exact values. The model covers
  endpoints of the same sign, which is all that \<^verbatim>\<open>compute_band_edges\<close> passes.
\<close>

definition geomspace :: "real \<Rightarrow> real \<Rightarrow> int \<Rightarrow> py_error + real list" where
  "geomspace start stop num =
     (if num < 0 \<or> start = 0 \<or> stop = 0 then Inl ValueError
      else Inr (map (\<lambda>i. if i = 0 then start
                          else if int i = num - 1 then stop
                          else start * (stop / start) powr (real i / real_of_int (num - 1)))
                    [0..<nat num]))"

text \<open>
  Lines 127--131 of the source in float64: the clamped cutoffs \<open>(lo, hi)\<close>. \<^verbatim>\<open>min\<close> and
  \<^verbatim>\<open>max\<close> compare exactly, \<^verbatim>\<open>float\<close> and the arithmetic convert an \<^verbatim>\<open>int\<close> argument.
\<close>

definition clamp_cutoffs :: "real \<Rightarrow> real \<Rightarrow> real \<Rightarrow> py_error + real \<times> real" where
  "clamp_cutoffs sr low high =
     (case as_float sr of
        Inl e \<Rightarrow> Inl e
      | Inr s \<Rightarrow>
          let nyq = fl64 (s / 2) in
          case as_float (min high (fl64 (nyq - 1))) of
            Inl e \<Rightarrow> Inl e
          | Inr hi \<Rightarrow>
              (case as_float (max 1 (min low (fl64 (hi - 1)))) of
                 Inl e \<Rightarrow> Inl e
               | Inr lo \<Rightarrow> Inr (lo, if hi \<le> lo then fl64 (lo + 1) else hi)))"

text \<open>
  Line 132: the edges, cast to float32. An edge of \<open>2 ^ 128\<close> or more stands for the
  float32 infinity.
\<close>

definition compute_band_edges :: "real \<Rightarrow> real \<Rightarrow> real \<Rightarrow> int \<Rightarrow> py_error + real list" where
  "compute_band_edges sr low high bands =
     (case clamp_cutoffs sr low high of
        Inl e \<Rightarrow> Inl e
      | Inr (lo, hi) \<Rightarrow>
          (case geomspace lo hi (bands + 1) of
             Inl e \<Rightarrow> Inl e
           | Inr edges \<Rightarrow> Inr (map fl32 edges)))"

subsection \<open>Spectral analyzer\<close>

text \<open>
  \<^verbatim>\<open>np.fft.rfft\<close>: the one-sided discrete Fourier transform of a real sequence of length
  \<open>n\<close>, bins \<open>0 .. n div 2\<close>. \<^verbatim>\<open>np.fft.rfftfreq(n, d)\<close>: the bin centres \<open>k / (d * n)\<close>.
\<close>

definition rfft :: "real list \<Rightarrow> complex list" where
  "rfft x =
     map (\<lambda>k. \<Sum>j\<leftarrow>[0..<length x].
                 complex_of_real (x ! j) * cis (- (2 * pi * real j * real k / real (length x))))
         [0..<length x div 2 + 1]"

definition rfftfreq :: "nat \<Rightarrow> real \<Rightarrow> real list" where
  "rfftfreq n d = map (\<lambda>k. real k / (d * real n)) [0..<n div 2 + 1]"

text \<open>Returns \<open>(freqs, mags)\<close>. \<^verbatim>\<open>1.0 / sr\<close> raises for \<open>sr = 0\<close>.\<close>

definition fft_magnitude :: "real list \<Rightarrow> real \<Rightarrow> py_error + (real list \<times> real list)" where
  "fft_magnitude sig sr =
     (let n = length sig in
      if n \<le> 1 then Inr ([0], [0])
      else let spec = rfft sig;
               mags = map cmod spec in
           if sr = 0 then Inl ZeroDivisionError
           else Inr (rfftfreq n (1 / sr), mags))"

subsection \<open>Band aggregator\<close>

text \<open>
  \<^verbatim>\<open>np.searchsorted(a, v, side="right")\<close> for a sorted \<open>a\<close>: the insertion point after
  every entry \<open>\<le> v\<close>, that is, the number of entries \<open>\<le> v\<close>. NumPy specifies the result
  for sorted \<open>a\<close> only.
\<close>

definition searchsorted_right :: "real list \<Rightarrow> real \<Rightarrow> int" where
  "searchsorted_right a v = int (length (takeWhile (\<lambda>e. e \<le> v) a))"

definition np_clip :: "int \<Rightarrow> int \<Rightarrow> int \<Rightarrow> int" where
  "np_clip x lo hi = min (max x lo) hi"

text \<open>Lines 143--144: the band of a frequency.\<close>

definition band_index :: "real list \<Rightarrow> real \<Rightarrow> int" where
  "band_index edges f =
     np_clip (searchsorted_right edges f - 1) 0 (int (length edges) - 1 - 1)"

text \<open>Line 139: one element of the mask, with \<^verbatim>\<open>edges[0]\<close> and \<^verbatim>\<open>edges[-1]\<close>.\<close>

definition in_range :: "real list \<Rightarrow> real \<Rightarrow> bool" where
  "in_range edges f = (edges ! 0 \<le> f \<and> f \<le> last edges)"

text \<open>Boolean-mask indexing \<^verbatim>\<open>xs[mask]\<close>, for a mask as long as \<open>xs\<close>.\<close>

definition select :: "bool list \<Rightarrow> 'a list \<Rightarrow> 'a list" where
  "select bs xs = map snd (filter fst (zip bs xs))"

text \<open>
  \<^verbatim>\<open>np.add.at(out, idx, m)\<close>: unbuffered \<^verbatim>\<open>out[idx[k]] += m[k]\<close> for each \<open>k\<close> in order,
  with Python's negative indices, \<^verbatim>\<open>IndexError\<close> out of range.
\<close>

fun add_at :: "real list \<Rightarrow> (int \<times> real) list \<Rightarrow> py_error + real list" where
  "add_at out [] = Inr out"
| "add_at out ((i, m) # rest) =
     (let n = int (length out);
          j = (if i < 0 then n + i else i)
      in if 0 \<le> j \<and> j < n then add_at (out[nat j := out ! nat j + m]) rest
         else Inl IndexError)"

text \<open>Lines 142--145, reached when some bin is kept: the per-band sums.\<close>

definition band_sums :: "real list \<Rightarrow> real list \<Rightarrow> real list \<Rightarrow> py_error + real list" where
  "band_sums freqs mags edges =
     (let bands = int (length edges) - 1;
          out = replicate (nat bands) 0;
          mask' = map (in_range edges) freqs
      in if length mags \<noteq> length freqs then Inl IndexError
         else let f = select mask' freqs;
                  m = select mask' mags;
                  idx = map (band_index edges) f
              in add_at out (zip idx m))"

definition log1p :: "real \<Rightarrow> real" where
  "log1p x = ln (1 + x)"

text \<open>\<^verbatim>\<open>np.pad(xs, (l, r), mode="edge")\<close> for a non-empty \<open>xs\<close>.\<close>

definition pad_edge :: "real list \<Rightarrow> nat \<Rightarrow> nat \<Rightarrow> real list" where
  "pad_edge xs l r = replicate l (xs ! 0) @ xs @ replicate r (last xs)"

definition nth0 :: "real list \<Rightarrow> int \<Rightarrow> real" where
  "nth0 a i = (if 0 \<le> i \<and> i < int (length a) then a ! nat i else 0)"

text \<open>
  \<^verbatim>\<open>np.convolve(a, v, mode="same")\<close> for \<open>length v \<le> length a\<close>: the middle \<open>length a\<close>
  entries of the full convolution, \<open>a\<close> read as zero outside its range.
\<close>

definition convolve_same :: "real list \<Rightarrow> real list \<Rightarrow> real list" where
  "convolve_same a v =
     map (\<lambda>n. \<Sum>j\<leftarrow>[0..<length v].
                 v ! j * nth0 a (int n + int ((length v - 1) div 2) - int j))
         [0..<length a]"

text \<open>Lines 149--153: the 9-point moving average; the slice \<^verbatim>\<open>[pad:-pad]\<close>.\<close>

definition smooth :: "real list \<Rightarrow> real list" where
  "smooth out =
     (let k = 9;
          pad = k div 2;
          kernel = replicate k (1 / real k);
          padded = pad_edge out pad pad;
          conv = convolve_same padded kernel
      in drop pad (take (length conv - pad) conv))"

text \<open>\<^verbatim>\<open>out.max()\<close> raises \<^verbatim>\<open>ValueError\<close> on an empty array.\<close>

fun np_max :: "real list \<Rightarrow> py_error + real" where
  "np_max [] = Inl ValueError"
| "np_max (x # xs) = Inr (fold max xs x)"

text \<open>Lines 146--153: \<^verbatim>\<open>log1p\<close> compression, then smoothing when there are at least 9 bands.\<close>

definition compress_smooth :: "real list \<Rightarrow> real list" where
  "compress_smooth totals =
     (let out = map log1p totals
      in if 9 \<le> length out then smooth out else out)"

text \<open>Lines 154--157: peak normalisation.\<close>

definition normalize_bands :: "real list \<Rightarrow> py_error + real list" where
  "normalize_bands out =
     (case np_max out of
        Inl e \<Rightarrow> Inl e
      | Inr mx \<Rightarrow> Inr (if mx > 1 / 10 ^ 8 then map (\<lambda>x. x / mx) out else out))"

text \<open>
  \<^verbatim>\<open>np.zeros(bands)\<close> raises \<^verbatim>\<open>ValueError\<close> for an empty \<open>edges\<close> (\<open>bands = -1\<close>). When no
  bin is kept the zero vector is returned at once.
\<close>

definition spectrum_to_bands :: "real list \<Rightarrow> real list \<Rightarrow> real list \<Rightarrow> py_error + real list" where
  "spectrum_to_bands freqs mags edges =
     (let bands = int (length edges) - 1 in
      if bands < 0 then Inl ValueError
      else let out = replicate (nat bands) 0;
               mask' = map (in_range edges) freqs
           in if \<not> list_ex (\<lambda>b. b) mask' then Inr out
              else case band_sums freqs mags edges of
                     Inl e \<Rightarrow> Inl e
                   | Inr totals \<Rightarrow> normalize_bands (compress_smooth totals))"

subsection \<open>Configuration\<close>

text \<open>The module-level constants of the source, lines 20--41.\<close>

record config =
  W :: int
  H :: int
  FPS :: real
  CENTER :: "real \<times> real"
  BASE_RADIUS :: real
  SPOKES :: int
  BAR_THICKNESS :: int
  BAR_MIN :: real
  BAR_MAX_EXTRA :: real
  BASE_RING_ON :: bool
  BASE_RING_W :: int
  GLOW_ON :: bool
  GLOW_STEPS :: int
  GLOW_ALPHA :: int
  GLOW_EXPAND :: int
  WINDOW_SEC :: real
  LOW_HZ :: real
  HIGH_HZ :: real
  SR :: real

text \<open>
  \<^verbatim>\<open>CENTER = (W // 2, H // 2.5)\<close> is \<open>(1920, 864.0)\<close>; the literal \<^verbatim>\<open>0.10\<close> is the float64
  nearest to one tenth.
\<close>

definition default_config :: config where
  "default_config =
     \<lparr> W = 3840, H = 2160, FPS = 60,
       CENTER = (real_of_int (3840 div 2), real_of_int \<lfloor>2160 / (5 / 2) :: real\<rfloor>),
       BASE_RADIUS = 220, SPOKES = 360, BAR_THICKNESS = 2, BAR_MIN = 4, BAR_MAX_EXTRA = 70,
       BASE_RING_ON = True, BASE_RING_W = 1,
       GLOW_ON = False, GLOW_STEPS = 0, GLOW_ALPHA = 80, GLOW_EXPAND = 2,
       WINDOW_SEC = fl64 (1 / 10), LOW_HZ = 30, HIGH_HZ = 12000, SR = 44100 \<rparr>"

subsection \<open>Background fitter\<close>

text \<open>
  A PIL image produced by \<^verbatim>\<open>load_and_fit_background\<close>, by construction. \<open>Pasted\<close>: a black
  canvas of the given size with the source, resized to the second size, pasted at the
  offset. \<open>Cropped\<close>: the source resized to the given size, then \<^verbatim>\<open>crop(box)\<close> with
  \<open>box = (left, upper, right, lower)\<close>; PIL fills the part of the box that lies outside the
  resized image with black. The source image is given by its size \<open>(src_w, src_h)\<close>.
\<close>

datatype fitted =
    Pasted "int \<times> int" "int \<times> int" "int \<times> int"
  | Cropped "int \<times> int" "int \<times> int \<times> int \<times> int"

text \<open>
  Lines 74--79 and 87--90. \<^verbatim>\<open>img.resize\<close> raises \<^verbatim>\<open>ValueError\<close> for a size that is not
  positive, \<^verbatim>\<open>Image.new\<close> for a negative one.
\<close>

definition paste_centered :: "int \<Rightarrow> int \<Rightarrow> int \<Rightarrow> int \<Rightarrow> py_error + fitted" where
  "paste_centered w h new_w new_h =
     (if new_w \<le> 0 \<or> new_h \<le> 0 \<or> w < 0 \<or> h < 0 then Inl ValueError
      else let x = (w - new_w) div 2;
               y = (h - new_h) div 2
           in Inr (Pasted (w, h) (new_w, new_h) (x, y)))"

definition crop_centered :: "int \<Rightarrow> int \<Rightarrow> int \<Rightarrow> int \<Rightarrow> py_error + fitted" where
  "crop_centered w h new_w new_h =
     (if new_w \<le> 0 \<or> new_h \<le> 0 then Inl ValueError
      else let x = (new_w - w) div 2;
               y = (new_h - h) div 2
           in Inr (Cropped (new_w, new_h) (x, y, x + w, y + h)))"

definition load_and_fit_background :: "int \<times> int \<Rightarrow> int \<Rightarrow> int \<Rightarrow> string \<Rightarrow> py_error + fitted" where
  "load_and_fit_background src w h fit_mode =
     (case src of (src_w, src_h) \<Rightarrow>
        if h = 0 \<or> src_h = 0 then Inl ZeroDivisionError
        else let target_ratio = real_of_int w / real_of_int h;
                 src_ratio = real_of_int src_w / real_of_int src_h
             in if fit_mode = ''contain'' then
                  (if src_ratio > target_ratio then
                     (if src_ratio = 0 then Inl ZeroDivisionError
                      else let new_w = w; new_h = py_round (real_of_int w / src_ratio)
                           in paste_centered w h new_w new_h)
                   else let new_h = h; new_w = py_round (real_of_int h * src_ratio)
                        in paste_centered w h new_w new_h)
                else
                  (if src_ratio < target_ratio then
                     let new_h = h; new_w = py_round (real_of_int h * src_ratio)
                     in crop_centered w h new_w new_h
                   else if src_ratio = 0 then Inl ZeroDivisionError
                   else let new_w = w; new_h = py_round (real_of_int w / src_ratio)
                        in crop_centered w h new_w new_h))"

text \<open>The output size, and whether black pixels were added around the source.\<close>

fun fitted_size :: "fitted \<Rightarrow> int \<times> int" where
  "fitted_size (Pasted canvas new_size offset) = canvas"
| "fitted_size (Cropped new_size (x0, y0, x1, y1)) = (x1 - x0, y1 - y0)"

fun has_padding :: "fitted \<Rightarrow> bool" where
  "has_padding (Pasted (w, h) (new_w, new_h) (x, y)) =
     (0 < x \<or> 0 < y \<or> x + new_w < w \<or> y + new_h < h)"
| "has_padding (Cropped (new_w, new_h) (x0, y0, x1, y1)) =
     (x0 < 0 \<or> y0 < 0 \<or> new_w < x1 \<or> new_h < y1)"

subsection \<open>Audio window extractor\<close>

text \<open>
  The audio clip is MoviePy's, outside the repository: it is given by the methods it has and
  by the array \<^verbatim>\<open>subclip(start, end).to_soundarray(fps=sr)\<close> returns, one-dimensional
  (\<open>Mono\<close>) or one row per sample and one column per channel (\<open>Frames\<close>).
\<close>

datatype soundarray = Mono "real list" | Frames "real list list"

record clip =
  has_subclip :: bool
  has_subclipped :: bool
  to_soundarray :: "real \<Rightarrow> real \<Rightarrow> real \<Rightarrow> soundarray"

text \<open>Lines 95--100 followed by \<^verbatim>\<open>to_soundarray\<close>.\<close>

definition subclip_compat :: "clip \<Rightarrow> real \<Rightarrow> real \<Rightarrow> real \<Rightarrow> py_error + soundarray" where
  "subclip_compat c start end' sr =
     (if has_subclip c then Inr (to_soundarray c start end' sr)
      else if has_subclipped c then Inr (to_soundarray c start end' sr)
      else Inl AttributeError)"

text \<open>Lines 109--110: \<^verbatim>\<open>arr.mean(axis=1)\<close> for a two-dimensional array.\<close>

fun to_mono :: "soundarray \<Rightarrow> real list" where
  "to_mono (Mono xs) = xs"
| "to_mono (Frames rows) = map (\<lambda>row. sum_list row / real (length row)) rows"

text \<open>\<^verbatim>\<open>np.hanning(n)\<close>.\<close>

definition hanning :: "nat \<Rightarrow> real list" where
  "hanning n =
     (if n = 1 then [1]
      else map (\<lambda>k. 1 / 2 - 1 / 2 * cos (2 * pi * real k / real (n - 1))) [0..<n])"

text \<open>
  Lines 103--106 in float64: the requested range. The quotient, the difference and the sums
  are each rounded; \<^verbatim>\<open>1.0 / FPS\<close> converts \<^verbatim>\<open>FPS\<close> to a float and raises for \<open>FPS = 0\<close>.
\<close>

definition window_range :: "config \<Rightarrow> real \<Rightarrow> real \<Rightarrow> real \<Rightarrow> py_error + (real \<times> real)" where
  "window_range cfg duration t win_sec =
     (let start = max 0 (fl64 (t - fl64 (win_sec / 2)));
          end' = min duration (fl64 (t + fl64 (win_sec / 2)))
      in if end' \<le> start then
           (case as_float (FPS cfg) of
              Inl e \<Rightarrow> Inl e
            | Inr fps \<Rightarrow>
                if fps = 0 then Inl ZeroDivisionError
                else Inr (start, min duration (fl64 (start + max (fl64 (1 / fps)) (fl64 (1 / 100))))))
         else Inr (start, end'))"

text \<open>
  Line 113: \<^verbatim>\<open>np.zeros(int(sr * win_sec))\<close>. The product is a float64 (an \<^verbatim>\<open>int\<close> \<^verbatim>\<open>sr\<close> is
  converted first), \<^verbatim>\<open>int\<close> truncates it toward zero and raises \<^verbatim>\<open>OverflowError\<close> when it is
  infinite; \<^verbatim>\<open>np.zeros(k)\<close> raises \<^verbatim>\<open>ValueError\<close> for a negative \<open>k\<close>.
\<close>

definition fallback_length :: "real \<Rightarrow> real \<Rightarrow> py_error + int" where
  "fallback_length sr win_sec =
     (case as_float sr of
        Inl e \<Rightarrow> Inl e
      | Inr s \<Rightarrow>
          let x = fl64 (s * win_sec)
          in if fl64_finite x then Inr (py_int x) else Inl OverflowError)"

text \<open>Lines 102--115. The samples and the Hann window of a non-empty range are over the reals.\<close>

definition get_audio_window ::
  "config \<Rightarrow> clip \<Rightarrow> real \<Rightarrow> real \<Rightarrow> real \<Rightarrow> real \<Rightarrow> py_error + real list" where
  "get_audio_window cfg audio duration t win_sec sr =
     (case window_range cfg duration t win_sec of
        Inl e \<Rightarrow> Inl e
      | Inr (start, end') \<Rightarrow>
          (case subclip_compat audio start end' sr of
             Inl e \<Rightarrow> Inl e
           | Inr sub \<Rightarrow>
               let arr = to_mono sub;
                   n = length arr
               in if n = 0 then
                    (case fallback_length sr win_sec of
                       Inl e \<Rightarrow> Inl e
                     | Inr k \<Rightarrow> if k < 0 then Inl ValueError else Inr (replicate (nat k) 0))
                  else let win = hanning n
                       in Inr (map (\<lambda>(a, b). a * b) (zip arr win))))"

text \<open>Two clips to run the extractor on: every sub-range empty, and a two-sample stereo one.\<close>

definition empty_clip :: clip where
  "empty_clip = \<lparr> has_subclip = False, has_subclipped = True,
                   to_soundarray = (\<lambda>start end' sr. Mono []) \<rparr>"

definition stereo_clip :: clip where
  "stereo_clip = \<lparr> has_subclip = True, has_subclipped = False,
                    to_soundarray = (\<lambda>start end' sr. Frames [[1, 3], [2, 4]]) \<rparr>"

subsection \<open>Radial renderer\<close>

type_synonym rgba = "int \<times> int \<times> int \<times> int"

text \<open>The calls on an \<^verbatim>\<open>ImageDraw\<close> handle: \<^verbatim>\<open>line([p0, p1], fill, width)\<close> and
  \<^verbatim>\<open>ellipse(box, outline, width)\<close>.\<close>

datatype draw_cmd =
    Line "real \<times> real" "real \<times> real" rgba int
  | Ellipse "real \<times> real \<times> real \<times> real" rgba int

text \<open>\<^verbatim>\<open>np.linspace(start, stop, num, endpoint=False)\<close>.\<close>

definition linspace_open :: "real \<Rightarrow> real \<Rightarrow> nat \<Rightarrow> real list" where
  "linspace_open start stop num =
     map (\<lambda>i. start + real i * ((stop - start) / real num)) [0..<num]"

text \<open>Line 164, for one level: \<^verbatim>\<open>BAR_MIN + BAR_MAX_EXTRA * (np.clip(level, 0, 1) ** 0.9)\<close>.\<close>

definition bar_height :: "config \<Rightarrow> real \<Rightarrow> real" where
  "bar_height cfg level = BAR_MIN cfg + BAR_MAX_EXTRA cfg * (min (max level 0) 1) powr (9 / 10)"

text \<open>Lines 167--171: the body of the loop.\<close>

definition spoke :: "config \<Rightarrow> rgba \<Rightarrow> int \<Rightarrow> real \<times> real \<Rightarrow> draw_cmd" where
  "spoke cfg color w th =
     (case th of (theta, h) \<Rightarrow>
        case CENTER cfg of (cx, cy) \<Rightarrow>
          let x0 = cx + BASE_RADIUS cfg * cos theta;
              y0 = cy + BASE_RADIUS cfg * sin theta;
              x1 = cx + (BASE_RADIUS cfg + h) * cos theta;
              y1 = cy + (BASE_RADIUS cfg + h) * sin theta
          in Line (x0, y0) (x1, y1) color w)"

text \<open>The draw calls of \<^verbatim>\<open>draw_spokes\<close>, in order.\<close>

definition draw_spokes :: "config \<Rightarrow> real list \<Rightarrow> rgba \<Rightarrow> int option \<Rightarrow> draw_cmd list" where
  "draw_spokes cfg levels color width =
     (let w = max 1 (case width of None \<Rightarrow> BAR_THICKNESS cfg | Some v \<Rightarrow> v);
          thetas = linspace_open 0 (2 * pi) (length levels);
          heights = map (bar_height cfg) levels
      in map (spoke cfg color w) (zip thetas heights))"

text \<open>Line 195, for pass \<open>i\<close>.\<close>

definition glow_width :: "config \<Rightarrow> int \<Rightarrow> int" where
  "glow_width cfg i = BAR_THICKNESS cfg + i * GLOW_EXPAND cfg"

text \<open>
  Line 196, for pass \<open>i\<close>, in float64:
  \<^verbatim>\<open>max(0, int(GLOW_ALPHA * (1.0 - (i - 1) / max(1, GLOW_STEPS))))\<close>. The quotient of the two
  ints, the difference and the product are each rounded; \<^verbatim>\<open>int\<close> of an infinite product
  raises \<^verbatim>\<open>OverflowError\<close>.
\<close>

definition glow_alpha :: "config \<Rightarrow> int \<Rightarrow> py_error + int" where
  "glow_alpha cfg i =
     (case int_truediv (i - 1) (max 1 (GLOW_STEPS cfg)) of
        Inl e \<Rightarrow> Inl e
      | Inr q \<Rightarrow>
          (case as_float (real_of_int (GLOW_ALPHA cfg)) of
             Inl e \<Rightarrow> Inl e
           | Inr a \<Rightarrow>
               let x = fl64 (a * fl64 (1 - q))
               in if fl64_finite x then Inr (max 0 (py_int x)) else Inl OverflowError))"

text \<open>Lines 193--197: the glow passes for the given pass indices, in order.\<close>

fun glow_passes :: "config \<Rightarrow> real list \<Rightarrow> int list \<Rightarrow> py_error + draw_cmd list" where
  "glow_passes cfg levels [] = Inr []"
| "glow_passes cfg levels (i # rest) =
     (case glow_alpha cfg i of
        Inl e \<Rightarrow> Inl e
      | Inr alpha \<Rightarrow>
          (case glow_passes cfg levels rest of
             Inl e \<Rightarrow> Inl e
           | Inr cmds \<Rightarrow>
               Inr (draw_spokes cfg levels (255, 255, 255, alpha) (Some (glow_width cfg i)) @ cmds)))"

text \<open>Lines 184--200: every draw call of one frame, in order.\<close>

definition frame_draws :: "config \<Rightarrow> real list \<Rightarrow> py_error + draw_cmd list" where
  "frame_draws cfg levels =
     (case CENTER cfg of (cx, cy) \<Rightarrow>
        let ring = (if BASE_RING_ON cfg \<and> BASE_RING_W cfg > 0
                    then [Ellipse (cx - BASE_RADIUS cfg, cy - BASE_RADIUS cfg,
                                   cx + BASE_RADIUS cfg, cy + BASE_RADIUS cfg)
                                  (255, 255, 255, 160) (BASE_RING_W cfg)]
                    else [])
        in case (if GLOW_ON cfg \<and> GLOW_STEPS cfg > 0
                 then glow_passes cfg levels [1..GLOW_STEPS cfg]
                 else Inr []) of
             Inl e \<Rightarrow> Inl e
           | Inr glow \<Rightarrow>
               Inr (ring @ glow
                    @ draw_spokes cfg levels (255, 255, 255, 255) (Some (BAR_THICKNESS cfg))))"

subsection \<open>Frame sequencer\<close>

text \<open>
  A PIL image object: its mode, the pixels it was created with, and the draw calls applied
  to it since, in order. Image objects live in a store, addressed by natural numbers;
  \<open>next_addr\<close> is the first address not yet in use.
\<close>

datatype img_mode = RGB | RGBA

record 'px image =
  img_mode :: img_mode
  img_pixels :: 'px
  img_drawn :: "draw_cmd list"

text \<open>The module-level objects \<^verbatim>\<open>audio\<close>, \<^verbatim>\<open>duration\<close>, \<^verbatim>\<open>BG_BASE\<close>, \<^verbatim>\<open>BAND_EDGES\<close>.\<close>

record 'px globals =
  audio :: clip
  duration :: real
  BG_BASE :: nat
  BAND_EDGES :: "real list"
  heap :: "nat \<Rightarrow> 'px image"
  next_addr :: nat

text \<open>\<^verbatim>\<open>Image.copy()\<close>: a new object with the same content.\<close>

definition image_copy :: "'px globals \<Rightarrow> nat \<Rightarrow> nat \<times> 'px globals" where
  "image_copy g a =
     (next_addr g, g\<lparr> heap := (heap g)(next_addr g := heap g a), next_addr := next_addr g + 1 \<rparr>)"

text \<open>Draw calls through an \<^verbatim>\<open>ImageDraw.Draw(frame)\<close> handle change the image it was made for.\<close>

definition image_draw :: "'px globals \<Rightarrow> nat \<Rightarrow> draw_cmd list \<Rightarrow> 'px globals" where
  "image_draw g a cmds =
     g\<lparr> heap := (heap g)(a := (heap g a)\<lparr> img_drawn := img_drawn (heap g a) @ cmds \<rparr>) \<rparr>"

text \<open>\<^verbatim>\<open>Image.convert("RGB")\<close> returns a new image and leaves the original as it is.\<close>

definition image_convert :: "'px image \<Rightarrow> img_mode \<Rightarrow> 'px image" where
  "image_convert im m = im\<lparr> img_mode := m \<rparr>"

text \<open>Lines 175--177.\<close>

definition frame_levels :: "config \<Rightarrow> 'px globals \<Rightarrow> real \<Rightarrow> py_error + real list" where
  "frame_levels cfg g t =
     (case get_audio_window cfg (audio g) (duration g) t (WINDOW_SEC cfg) (SR cfg) of
        Inl e \<Rightarrow> Inl e
      | Inr sig \<Rightarrow>
          (case fft_magnitude sig (SR cfg) of
             Inl e \<Rightarrow> Inl e
           | Inr (freqs, mags) \<Rightarrow> spectrum_to_bands freqs mags (BAND_EDGES g)))"

text \<open>
  Returns the RGB frame and the globals after the call. When a glow pass raises, the private
  copy is dropped with the exception.
\<close>

definition make_frame_rgb ::
  "config \<Rightarrow> 'px globals \<Rightarrow> real \<Rightarrow> py_error + ('px image \<times> 'px globals)" where
  "make_frame_rgb cfg g t =
     (case frame_levels cfg g t of
        Inl e \<Rightarrow> Inl e
      | Inr levels \<Rightarrow>
          (case image_copy g (BG_BASE g) of (frame, g1) \<Rightarrow>
             (case frame_draws cfg levels of
                Inl e \<Rightarrow> Inl e
              | Inr cmds \<Rightarrow>
                  let g2 = image_draw g1 frame cmds
                  in Inr (image_convert (heap g2 frame) RGB, g2))))"

text \<open>
  Globals to run a frame on: the empty clip of 2 s, three band edges, and the store holding
  only the fitted background (a square source letterboxed into the 4K canvas), at address 0.
\<close>

definition example_globals :: "fitted globals" where
  "example_globals =
     \<lparr> audio = empty_clip, duration = 2, BG_BASE = 0, BAND_EDGES = [1, 2, 4],
       heap = (\<lambda>a. \<lparr> img_mode = RGBA,
                      img_pixels = Pasted (3840, 2160) (2160, 2160) (840, 0),
                      img_drawn = [] \<rparr>),
       next_addr = 1 \<rparr>"

section \<open>Properties\<close>

subsection \<open>Floating-point rounding\<close>

lemma py_round_spec:
  "\<bar>real_of_int (py_round x) - x\<bar> < 1 / 2
   \<or> (\<bar>real_of_int (py_round x) - x\<bar> = 1 / 2 \<and> even (py_round x))"
proof -
  define f where "f = \<lfloor>x\<rfloor>"
  define d where "d = x - real_of_int f"
  have d: "0 \<le> d" "d < 1" unfolding d_def f_def by linarith+
  have a0: "\<bar>real_of_int f - x\<bar> = d" using d by (simp add: d_def)
  have a1: "\<bar>real_of_int (f + 1) - x\<bar> = 1 - d" using d by (simp add: d_def)
  consider "d < 1 / 2" | "1 / 2 < d" | "d = 1 / 2" "even f" | "d = 1 / 2" "odd f"
    by fastforce
  then show ?thesis
  proof cases
    case 1
    then have r: "py_round x = f" by (simp add: py_round_def Let_def f_def d_def)
    show ?thesis unfolding r a0 using 1 by simp
  next
    case 2
    then have r: "py_round x = f + 1" by (simp add: py_round_def Let_def f_def d_def)
    show ?thesis unfolding r a1 using 2 by simp
  next
    case 3
    then have r: "py_round x = f" by (simp add: py_round_def Let_def f_def d_def)
    show ?thesis unfolding r a0 using 3 by simp
  next
    case 4
    then have r: "py_round x = f + 1" by (simp add: py_round_def Let_def f_def d_def)
    show ?thesis unfolding r a1 using 4 by simp
  qed
qed

lemma py_round_unique:
  assumes "\<bar>real_of_int n - x\<bar> < 1 / 2 \<or> (\<bar>real_of_int n - x\<bar> = 1 / 2 \<and> even n)"
  shows "py_round x = n"
proof -
  define m where "m = py_round x"
  have s: "\<bar>real_of_int m - x\<bar> < 1 / 2 \<or> (\<bar>real_of_int m - x\<bar> = 1 / 2 \<and> even m)"
    unfolding m_def by (rule py_round_spec)
  have le: "\<bar>real_of_int m - real_of_int n\<bar> \<le> 1" using s assms by linarith
  have "m = n"
  proof (cases "\<bar>real_of_int m - x\<bar> = 1 / 2 \<and> \<bar>real_of_int n - x\<bar> = 1 / 2")
    case True
    then have "even m" "even n" using s assms by auto
    then have "even (m - n)" by simp
    moreover have "\<bar>m - n\<bar> \<le> 1" using le by linarith
    ultimately show ?thesis by presburger
  next
    case False
    then have "\<bar>real_of_int m - real_of_int n\<bar> < 1" using s assms by linarith
    then have "\<bar>m - n\<bar> < 1" by linarith
    then show ?thesis by simp
  qed
  then show ?thesis by (simp add: m_def)
qed

lemma py_round_of_int: "py_round (real_of_int n) = n"
  by (rule py_round_unique) simp

lemma py_round_uminus: "py_round (- x) = - py_round x"
proof (rule py_round_unique)
  have "\<bar>real_of_int (- py_round x) - - x\<bar> = \<bar>real_of_int (py_round x) - x\<bar>" by simp
  then show "\<bar>real_of_int (- py_round x) - - x\<bar> < 1 / 2
     \<or> (\<bar>real_of_int (- py_round x) - - x\<bar> = 1 / 2 \<and> even (- py_round x))"
    using py_round_spec [of x] by simp
qed

lemma py_round_error: "\<bar>real_of_int (py_round x) - x\<bar> \<le> 1 / 2"
  using py_round_spec [of x] by linarith

lemma py_round_mono:
  assumes "x \<le> y"
  shows "py_round x \<le> py_round y"
proof (rule ccontr)
  assume "\<not> py_round x \<le> py_round y"
  then have lt: "py_round y + 1 \<le> py_round x" by simp
  have ex: "\<bar>real_of_int (py_round x) - x\<bar> \<le> 1 / 2" and ey: "\<bar>real_of_int (py_round y) - y\<bar> \<le> 1 / 2"
    by (rule py_round_error)+
  have r: "real_of_int (py_round y) + 1 \<le> real_of_int (py_round x)" using lt by linarith
  have "x = y" using ex ey r assms by linarith
  then show False using lt by simp
qed

lemma two_powr_int: "(2::real) powr real_of_int e = 2 powi e"
  by (simp add: powr_real_of_int')

lemma two_powr_int_Suc: "(2::real) powr (real_of_int e + 1) = 2 powi (e + 1)"
  using two_powr_int [of "e + 1"] by simp

lemma float_exp_bracket:
  assumes "x \<noteq> 0"
  shows "2 powi float_exp x \<le> \<bar>x\<bar>" and "\<bar>x\<bar> < 2 powi (float_exp x + 1)"
proof -
  have p: "0 < \<bar>x\<bar>" using assms by simp
  have "(2::real) powr real_of_int (float_exp x) \<le> \<bar>x\<bar>
        \<and> \<bar>x\<bar> < 2 powr real_of_int (float_exp x + 1)"
    using floor_log_eq_powr_iff [OF p, of 2 "float_exp x"] by (simp add: float_exp_def)
  then show "2 powi float_exp x \<le> \<bar>x\<bar>" and "\<bar>x\<bar> < 2 powi (float_exp x + 1)"
    by (simp_all add: two_powr_int two_powr_int_Suc)
qed

lemma float_exp_eq:
  assumes "2 powi e \<le> \<bar>x\<bar>" and "\<bar>x\<bar> < 2 powi (e + 1)"
  shows "float_exp x = e"
proof -
  have p: "0 < \<bar>x\<bar>" using assms(1) zero_less_power_int [of "2::real" e] by linarith
  have "(2::real) powr real_of_int e \<le> \<bar>x\<bar> \<and> \<bar>x\<bar> < 2 powr real_of_int (e + 1)"
    using assms by (simp add: two_powr_int two_powr_int_Suc)
  then show ?thesis
    using floor_log_eq_powr_iff [OF p, of 2 e] by (simp add: float_exp_def)
qed

lemma float_exp_uminus: "float_exp (- x) = float_exp x"
  by (simp add: float_exp_def)

lemma float_exp_mono:
  assumes "0 < x" and "x \<le> y"
  shows "float_exp x \<le> float_exp y"
proof -
  have "log 2 \<bar>x\<bar> \<le> log 2 \<bar>y\<bar>" using assms by (simp add: log_mono)
  then show ?thesis unfolding float_exp_def by (rule floor_mono)
qed

lemma float_ulp_pos: "0 < float_ulp p emin x"
  by (simp add: float_ulp_def zero_less_power_int)

lemma float_ulp_uminus: "float_ulp p emin (- x) = float_ulp p emin x"
  by (simp add: float_ulp_def float_exp_uminus)

lemma round_float_zero: "round_float p emin 0 = 0"
  by (simp add: round_float_def)

lemma round_float_uminus: "round_float p emin (- x) = - round_float p emin x"
  by (simp add: round_float_def float_ulp_uminus py_round_uminus)

lemma round_float_eval:
  assumes "2 powi e \<le> \<bar>x\<bar>" and "\<bar>x\<bar> < 2 powi (e + 1)"
  shows "round_float p emin x =
           real_of_int (py_round (x / 2 powi (max (e - int p + 1) emin)))
             * 2 powi (max (e - int p + 1) emin)"
proof -
  have "(0::real) < 2 powi e" by simp
  then have "0 < \<bar>x\<bar>" using assms(1) by linarith
  then have "x \<noteq> 0" by simp
  then show ?thesis
    by (simp add: round_float_def float_ulp_def float_exp_eq [OF assms])
qed

lemma round_float_nonneg:
  assumes "0 \<le> x"
  shows "0 \<le> round_float p emin x"
proof (cases "x = 0")
  case True
  then show ?thesis by (simp add: round_float_zero)
next
  case False
  have "0 \<le> x / float_ulp p emin x" using assms float_ulp_pos [of p emin x] by simp
  then have "py_round 0 \<le> py_round (x / float_ulp p emin x)" by (rule py_round_mono)
  then have "0 \<le> py_round (x / float_ulp p emin x)"
    using py_round_of_int [of 0] by simp
  then show ?thesis using False float_ulp_pos [of p emin x] by (simp add: round_float_def)
qed

lemma round_float_nonpos:
  assumes "x \<le> 0"
  shows "round_float p emin x \<le> 0"
  using round_float_nonneg [of "- x" p emin] assms by (simp add: round_float_uminus)

lemma round_float_error:
  "\<bar>round_float p emin x - x\<bar> \<le> float_ulp p emin x / 2"
proof (cases "x = 0")
  case True
  then show ?thesis using float_ulp_pos [of p emin x] by (simp add: round_float_zero)
next
  case False
  define u where "u = float_ulp p emin x"
  have u: "0 < u" unfolding u_def by (rule float_ulp_pos)
  have "round_float p emin x - x = (real_of_int (py_round (x / u)) - x / u) * u"
    using False u by (simp add: round_float_def u_def algebra_simps)
  then have "\<bar>round_float p emin x - x\<bar> = \<bar>real_of_int (py_round (x / u)) - x / u\<bar> * u"
    using u by (simp add: abs_mult)
  also have "\<dots> \<le> 1 / 2 * u"
    using py_round_error [of "x / u"] u by (intro mult_right_mono) simp_all
  finally show ?thesis by (simp add: u_def)
qed

text \<open>A number \<open>m * 2 ^ j\<close> with at most \<open>p\<close> significant bits is a float.\<close>

lemma round_float_fixes:
  assumes "\<bar>m\<bar> < 2 ^ p" and "emin \<le> j"
  shows "round_float p emin (real_of_int m * 2 powi j) = real_of_int m * 2 powi j"
proof (cases "m = 0")
  case True
  then show ?thesis by (simp add: round_float_zero)
next
  case False
  define x where "x = real_of_int m * 2 powi j"
  have x0: "x \<noteq> 0" using False by (simp add: x_def)
  define k where "k = max (float_exp x - int p + 1) emin"
  have "real_of_int \<bar>m\<bar> < real_of_int (2 ^ p)"
    using assms(1) by (rule of_int_less_iff [THEN iffD2])
  then have m: "\<bar>real_of_int m\<bar> < 2 ^ p" by simp
  have "2 powi float_exp x \<le> \<bar>x\<bar>" using float_exp_bracket(1) [OF x0] .
  also have "\<bar>x\<bar> = \<bar>real_of_int m\<bar> * 2 powi j" by (simp add: x_def abs_mult)
  also have "\<dots> < 2 ^ p * 2 powi j"
    using m by (intro mult_strict_right_mono) simp_all
  also have "\<dots> = 2 powi (int p + j)" by (simp add: power_int_add)
  finally have a: "(2::real) powi float_exp x < 2 powi (int p + j)" .
  have "float_exp x < int p + j"
  proof (rule ccontr)
    assume "\<not> float_exp x < int p + j"
    then have "int p + j \<le> float_exp x" by simp
    then have "(2::real) powi (int p + j) \<le> 2 powi float_exp x"
      by (intro power_int_increasing) simp_all
    then show False using a by simp
  qed
  then have kj: "k \<le> j" using assms(2) by (simp add: k_def)
  then have "2 powi j = (2::real) powi (j - k) * 2 powi k"
    by (simp add: power_int_add [symmetric])
  then have "x / 2 powi k = real_of_int m * 2 powi (j - k)"
    by (simp add: x_def)
  also have "(2::real) powi (j - k) = 2 ^ nat (j - k)"
    using kj by (simp add: power_int_def)
  finally have n: "x / 2 powi k = real_of_int (m * 2 ^ nat (j - k))" by simp
  have "round_float p emin x = real_of_int (py_round (x / 2 powi k)) * 2 powi k"
    using x0 by (simp add: round_float_def float_ulp_def k_def)
  also have "\<dots> = real_of_int (m * 2 ^ nat (j - k)) * 2 powi k"
    unfolding n py_round_of_int ..
  also have "\<dots> = x" using n [symmetric] by simp
  finally show ?thesis by (simp add: x_def)
qed

lemma round_float_mono_pos:
  assumes p: "0 < p" and x: "0 < x" and xy: "x \<le> y"
  shows "round_float p emin x \<le> round_float p emin y"
proof -
  define ex where "ex = float_exp x"
  define ey where "ey = float_exp y"
  define kx where "kx = max (ex - int p + 1) emin"
  define ky where "ky = max (ey - int p + 1) emin"
  have y: "0 < y" using x xy by simp
  have x0: "x \<noteq> 0" and y0: "y \<noteq> 0" using x y by simp_all
  have exy: "ex \<le> ey" unfolding ex_def ey_def using x xy by (rule float_exp_mono)
  then have kxy: "kx \<le> ky" by (simp add: kx_def ky_def)
  have rx: "round_float p emin x = real_of_int (py_round (x / 2 powi kx)) * 2 powi kx"
    using x0 by (simp add: round_float_def float_ulp_def kx_def ex_def)
  have ry: "round_float p emin y = real_of_int (py_round (y / 2 powi ky)) * 2 powi ky"
    using y0 by (simp add: round_float_def float_ulp_def ky_def ey_def)
  have pos: "(0::real) < 2 powi n" for n by simp
  show ?thesis
  proof (cases "kx = ky")
    case True
    have "x / 2 powi ky \<le> y / 2 powi ky" using xy pos [of ky] by (simp add: divide_right_mono)
    then have "py_round (x / 2 powi ky) \<le> py_round (y / 2 powi ky)" by (rule py_round_mono)
    then have "real_of_int (py_round (x / 2 powi ky)) * 2 powi ky
               \<le> real_of_int (py_round (y / 2 powi ky)) * 2 powi ky"
      using pos [of ky] by (intro mult_right_mono) simp_all
    then show ?thesis by (simp add: rx ry True)
  next
    case False
    then have lt: "kx < ky" using kxy by simp
    have emin: "emin \<le> kx" by (simp add: kx_def)
    then have ky: "ky = ey - int p + 1" using lt by (simp add: ky_def max_def split: if_splits)
    define t where "t = max (ex + 1) kx"
    have ex_lt: "ex < ey" using lt ky by (simp add: kx_def max_def split: if_splits)
    have t_le: "t \<le> ey" using ex_lt lt ky p by (simp add: t_def)
    have tk: "kx \<le> t" by (simp add: t_def)
    \<comment> \<open>the rounded \<open>x\<close> does not exceed \<open>2 ^ t\<close>\<close>
    have "x < 2 powi (ex + 1)" using float_exp_bracket(2) [OF x0] x by (simp add: ex_def)
    also have "\<dots> \<le> 2 powi t" by (intro power_int_increasing) (simp_all add: t_def)
    finally have "x \<le> 2 powi t" by simp
    then have "x / 2 powi kx \<le> 2 powi t / 2 powi kx"
      using pos [of kx] by (simp add: divide_right_mono)
    also have "2 powi t / 2 powi kx = (2::real) powi (t - kx)" by (simp add: power_int_diff)
    also have "\<dots> = real_of_int (2 ^ nat (t - kx))" using tk by (simp add: power_int_def)
    finally have "py_round (x / 2 powi kx) \<le> py_round (real_of_int (2 ^ nat (t - kx)))"
      by (rule py_round_mono)
    then have "real_of_int (py_round (x / 2 powi kx)) \<le> real_of_int (2 ^ nat (t - kx))"
      unfolding py_round_of_int by (rule of_int_le_iff [THEN iffD2])
    then have "real_of_int (py_round (x / 2 powi kx)) * 2 powi kx
               \<le> real_of_int (2 ^ nat (t - kx)) * 2 powi kx"
      using pos [of kx] by (intro mult_right_mono) simp_all
    also have "real_of_int (2 ^ nat (t - kx)) = (2::real) powi (t - kx)"
      using tk by (simp add: power_int_def)
    also have "(2::real) powi (t - kx) * 2 powi kx = 2 powi t"
      by (simp add: power_int_add [symmetric])
    finally have up: "round_float p emin x \<le> 2 powi t" by (simp add: rx)
    \<comment> \<open>the rounded \<open>y\<close> is at least \<open>2 ^ ey\<close>\<close>
    have eyk: "ey - ky = int p - 1" by (simp add: ky)
    have "2 powi ey \<le> y" using float_exp_bracket(1) [OF y0] y by (simp add: ey_def)
    then have "2 powi ey / 2 powi ky \<le> y / 2 powi ky"
      using pos [of ky] by (simp add: divide_right_mono)
    moreover have "2 powi ey / 2 powi ky = (2::real) powi (ey - ky)" by (simp add: power_int_diff)
    moreover have "(2::real) powi (ey - ky) = real_of_int (2 ^ nat (ey - ky))"
      using p by (simp add: eyk power_int_def)
    ultimately have "real_of_int (2 ^ nat (ey - ky)) \<le> y / 2 powi ky" by simp
    then have "py_round (real_of_int (2 ^ nat (ey - ky))) \<le> py_round (y / 2 powi ky)"
      by (rule py_round_mono)
    then have "real_of_int (2 ^ nat (ey - ky)) \<le> real_of_int (py_round (y / 2 powi ky))"
      unfolding py_round_of_int by (rule of_int_le_iff [THEN iffD2])
    then have m: "real_of_int (2 ^ nat (ey - ky)) * 2 powi ky
               \<le> real_of_int (py_round (y / 2 powi ky)) * 2 powi ky"
      using pos [of ky] by (intro mult_right_mono) simp_all
    have "(2::real) powi ey = 2 powi (ey - ky) * 2 powi ky"
      by (simp add: power_int_add [symmetric])
    also have "(2::real) powi (ey - ky) = real_of_int (2 ^ nat (ey - ky))"
      using p by (simp add: eyk power_int_def)
    also note m
    finally have lo: "2 powi ey \<le> round_float p emin y" by (simp add: ry)
    have "(2::real) powi t \<le> 2 powi ey" using t_le by (intro power_int_increasing) simp_all
    then show ?thesis using up lo by linarith
  qed
qed

lemma round_float_mono:
  assumes "0 < p" and "x \<le> y"
  shows "round_float p emin x \<le> round_float p emin y"
proof -
  consider "0 < x" | "x \<le> 0" "0 \<le> y" | "y < 0" by linarith
  then show ?thesis
  proof cases
    case 1
    then show ?thesis using assms by (intro round_float_mono_pos)
  next
    case 2
    then show ?thesis
      using round_float_nonpos [of x p emin] round_float_nonneg [of y p emin] by linarith
  next
    case 3
    then have "0 < - y" "- y \<le> - x" using assms(2) by simp_all
    then have "round_float p emin (- y) \<le> round_float p emin (- x)"
      using assms(1) by (intro round_float_mono_pos)
    then show ?thesis by (simp add: round_float_uminus)
  qed
qed

text \<open>Relative error in the normal range.\<close>

lemma round_float_rel_error:
  assumes "2 powi (emin + int p - 1) \<le> \<bar>x\<bar>"
  shows "\<bar>round_float p emin x - x\<bar> \<le> \<bar>x\<bar> * 2 powi (- int p)"
proof -
  have pos: "(0::real) < 2 powi n" for n by simp
  have "0 < \<bar>x\<bar>" using assms pos [of "emin + int p - 1"] by linarith
  then have x0: "x \<noteq> 0" by simp
  have "(2::real) powi (emin + int p - 1) < 2 powi (float_exp x + 1)"
    using assms float_exp_bracket(2) [OF x0] by linarith
  then have "emin + int p - 1 < float_exp x + 1"
  proof -
    assume a: "(2::real) powi (emin + int p - 1) < 2 powi (float_exp x + 1)"
    show ?thesis
    proof (rule ccontr)
      assume "\<not> emin + int p - 1 < float_exp x + 1"
      then have "(2::real) powi (float_exp x + 1) \<le> 2 powi (emin + int p - 1)"
        by (intro power_int_increasing) simp_all
      then show False using a by simp
    qed
  qed
  then have k: "max (float_exp x - int p + 1) emin = float_exp x - int p + 1" by simp
  have "float_ulp p emin x / 2 = 2 powi (float_exp x - int p + 1) / 2"
    by (simp add: float_ulp_def k)
  also have "\<dots> = 2 powi float_exp x * 2 powi (- int p)"
    by (simp add: power_int_add power_int_diff power_int_minus field_simps)
  also have "\<dots> \<le> \<bar>x\<bar> * 2 powi (- int p)"
    using float_exp_bracket(1) [OF x0] pos [of "- int p"] by (intro mult_right_mono) simp_all
  finally show ?thesis using round_float_error [of p emin x] by linarith
qed

lemma fl64_eval:
  assumes "2 powi e \<le> \<bar>x\<bar>" and "\<bar>x\<bar> < 2 powi (e + 1)" and "- 1022 \<le> e"
  shows "fl64 x = real_of_int (py_round (x / 2 powi (e - 52))) * 2 powi (e - 52)"
proof -
  have "max (e - int 53 + 1) (- 1074) = e - 52" using assms(3) by simp
  then show ?thesis
    unfolding fl64_def using round_float_eval [OF assms(1,2), of 53 "- 1074"] by simp
qed

lemma fl32_eval:
  assumes "2 powi e \<le> \<bar>x\<bar>" and "\<bar>x\<bar> < 2 powi (e + 1)" and "- 126 \<le> e"
  shows "fl32 x = real_of_int (py_round (x / 2 powi (e - 23))) * 2 powi (e - 23)"
proof -
  have "max (e - int 24 + 1) (- 149) = e - 23" using assms(3) by simp
  then show ?thesis
    unfolding fl32_def using round_float_eval [OF assms(1,2), of 24 "- 149"] by simp
qed

lemma fl64_int: "\<bar>n\<bar> < 2 ^ 53 \<Longrightarrow> fl64 (real_of_int n) = real_of_int n"
  unfolding fl64_def using round_float_fixes [of n 53 "- 1074" 0] by simp

lemma fl64_mono: "x \<le> y \<Longrightarrow> fl64 x \<le> fl64 y"
  unfolding fl64_def by (rule round_float_mono) simp

lemma round_float_idem:
  assumes p: "0 < p"
  shows "round_float p emin (round_float p emin x) = round_float p emin x"
proof (cases "x = 0")
  case True
  then show ?thesis by (simp add: round_float_zero)
next
  case False
  define e where "e = float_exp x"
  define k where "k = max (e - int p + 1) emin"
  define n where "n = py_round (x / 2 powi k)"
  have pos: "(0::real) < 2 powi i" for i by simp
  have r: "round_float p emin x = real_of_int n * 2 powi k"
    using False by (simp add: round_float_def float_ulp_def k_def e_def n_def)
  have ek: "e + 1 - k \<le> int p" by (simp add: k_def)
  have "\<bar>x\<bar> < 2 powi (e + 1)" using float_exp_bracket(2) [OF False] by (simp add: e_def)
  then have "\<bar>x\<bar> / 2 powi k < 2 powi (e + 1) / 2 powi k"
    using pos [of k] by (simp add: divide_strict_right_mono)
  also have "2 powi (e + 1) / 2 powi k = (2::real) powi (e + 1 - k)"
    by (simp add: power_int_diff)
  also have "\<dots> \<le> 2 powi (int p)" using ek by (intro power_int_increasing) simp_all
  also have "\<dots> = real_of_int (2 ^ p)" by simp
  finally have b: "\<bar>x / 2 powi k\<bar> \<le> real_of_int (2 ^ p)"
    using pos [of k] by (simp add: abs_divide)
  have b1: "x / 2 powi k \<le> real_of_int (2 ^ p)"
    and b2: "real_of_int (- (2 ^ p)) \<le> x / 2 powi k"
    using b by (simp_all only: abs_le_iff of_int_minus) linarith+
  have "py_round (x / 2 powi k) \<le> py_round (real_of_int (2 ^ p))"
    using b1 by (rule py_round_mono)
  moreover have "py_round (real_of_int (- (2 ^ p))) \<le> py_round (x / 2 powi k)"
    using b2 by (rule py_round_mono)
  ultimately have nb: "n \<le> 2 ^ p" "- (2 ^ p) \<le> n"
    unfolding py_round_of_int n_def by simp_all
  have ke: "emin \<le> k" by (simp add: k_def)
  consider "\<bar>n\<bar> < 2 ^ p" | "n = 2 ^ p" | "n = - (2 ^ p)" using nb by linarith
  then show ?thesis
  proof cases
    case 1
    then show ?thesis unfolding r by (intro round_float_fixes ke)
  next
    case 2
    have "real_of_int n * 2 powi k = real_of_int 1 * 2 powi (int p + k)"
      by (simp add: 2 power_int_add)
    moreover have "round_float p emin (real_of_int 1 * 2 powi (int p + k)) = real_of_int 1 * 2 powi (int p + k)"
      using p ke by (intro round_float_fixes) simp_all
    ultimately show ?thesis unfolding r by simp
  next
    case 3
    have "real_of_int n * 2 powi k = real_of_int (- 1) * 2 powi (int p + k)"
      by (simp add: 3 power_int_add)
    moreover have "round_float p emin (real_of_int (- 1) * 2 powi (int p + k)) = real_of_int (- 1) * 2 powi (int p + k)"
      using p ke by (intro round_float_fixes) simp_all
    ultimately show ?thesis unfolding r by simp
  qed
qed

lemma fl64_idem: "fl64 (fl64 x) = fl64 x"
  unfolding fl64_def by (rule round_float_idem) simp

lemma fl32_idem: "fl32 (fl32 x) = fl32 x"
  unfolding fl32_def by (rule round_float_idem) simp

lemma fl64_zero: "fl64 0 = 0"
  by (simp add: fl64_def round_float_zero)

lemma fl32_zero: "fl32 0 = 0"
  by (simp add: fl32_def round_float_zero)

lemma fl64_nonneg: "0 \<le> x \<Longrightarrow> 0 \<le> fl64 x"
  unfolding fl64_def by (rule round_float_nonneg)

lemma fl64_nonpos: "x \<le> 0 \<Longrightarrow> fl64 x \<le> 0"
  unfolding fl64_def by (rule round_float_nonpos)

lemma fl32_nonneg: "0 \<le> x \<Longrightarrow> 0 \<le> fl32 x"
  unfolding fl32_def by (rule round_float_nonneg)

lemma fl32_mono: "x \<le> y \<Longrightarrow> fl32 x \<le> fl32 y"
  unfolding fl32_def by (rule round_float_mono) simp

lemma fl32_int: "\<bar>n\<bar> < 2 ^ 24 \<Longrightarrow> fl32 (real_of_int n) = real_of_int n"
  unfolding fl32_def using round_float_fixes [of n 24 "- 149" 0] by simp

lemma fl64_pow2: "- 1074 \<le> j \<Longrightarrow> fl64 (2 powi j) = 2 powi j"
  unfolding fl64_def using round_float_fixes [of 1 53 "- 1074" j] by simp

lemma fl32_pow2: "- 149 \<le> j \<Longrightarrow> fl32 (2 powi j) = 2 powi j"
  unfolding fl32_def using round_float_fixes [of 1 24 "- 149" j] by simp

lemma fl64_one: "fl64 1 = 1"
  using fl64_int [of 1] by simp

lemma fl32_one: "fl32 1 = 1"
  using fl32_int [of 1] by simp

lemma fl64_uminus: "fl64 (- x) = - fl64 x"
  by (simp add: fl64_def round_float_uminus)

lemma fl64_abs_le:
  assumes "\<bar>x\<bar> \<le> 2 powi j" and "- 1074 \<le> j"
  shows "\<bar>fl64 x\<bar> \<le> 2 powi j"
proof -
  have "fl64 x \<le> fl64 (2 powi j)" using assms(1) by (intro fl64_mono) simp
  moreover have "fl64 (- (2 powi j)) \<le> fl64 x" using assms(1) by (intro fl64_mono) simp
  ultimately show ?thesis using fl64_pow2 [OF assms(2)] by (simp add: fl64_uminus abs_le_iff)
qed

text \<open>Error of one rounding, in every range.\<close>

lemma round_float_abs_error:
  "\<bar>round_float p emin x - x\<bar> \<le> \<bar>x\<bar> * 2 powi (- int p) + 2 powi (emin - 1)"
proof (cases "x = 0")
  case True
  then show ?thesis by (simp add: round_float_zero)
next
  case False
  have u: "float_ulp p emin x \<le> 2 powi (float_exp x - int p + 1) + 2 powi emin"
  proof (cases "float_exp x - int p + 1 \<le> emin")
    case True
    then have "float_ulp p emin x = 2 powi emin" by (simp add: float_ulp_def max_def)
    moreover have "(0::real) \<le> 2 powi (float_exp x - int p + 1)" by simp
    ultimately show ?thesis by linarith
  next
    case False
    then have "float_ulp p emin x = 2 powi (float_exp x - int p + 1)"
      by (simp add: float_ulp_def max_def)
    moreover have "(0::real) \<le> 2 powi emin" by simp
    ultimately show ?thesis by linarith
  qed
  have "(2::real) powi (float_exp x - int p + 1) = 2 powi float_exp x * 2 powi (1 - int p)"
    by (simp add: power_int_add [symmetric] algebra_simps)
  also have "\<dots> \<le> \<bar>x\<bar> * 2 powi (1 - int p)"
    using float_exp_bracket(1) [OF False] by (intro mult_right_mono) simp_all
  finally have a: "(2::real) powi (float_exp x - int p + 1) \<le> \<bar>x\<bar> * 2 powi (1 - int p)" .
  have h1: "(2::real) powi (1 - int p) = 2 * 2 powi (- int p)"
    by (simp add: power_int_add [of 2 1 "- int p", simplified])
  have h2: "(2::real) powi emin = 2 * 2 powi (emin - 1)"
    using power_int_add [of "2::real" 1 "emin - 1"] by simp
  have "float_ulp p emin x / 2 \<le> \<bar>x\<bar> * 2 powi (- int p) + 2 powi (emin - 1)"
    using u a h1 h2 by simp
  then show ?thesis using round_float_error [of p emin x] by linarith
qed

lemma fl64_error: "\<bar>fl64 x - x\<bar> \<le> \<bar>x\<bar> * 2 powi (- 53) + 2 powi (- 1075)"
  unfolding fl64_def using round_float_abs_error [of 53 "- 1074" x] by simp

lemma fl32_error: "\<bar>fl32 x - x\<bar> \<le> \<bar>x\<bar> * 2 powi (- 24) + 2 powi (- 150)"
  unfolding fl32_def using round_float_abs_error [of 24 "- 149" x] by simp

text \<open>Truncation and conversion.\<close>

lemma py_int_mono:
  assumes "x \<le> y"
  shows "py_int x \<le> py_int y"
proof (cases "0 \<le> x")
  case True
  then show ?thesis using assms by (simp add: py_int_def floor_mono)
next
  case False
  show ?thesis
  proof (cases "0 \<le> y")
    case True
    have "\<lceil>x\<rceil> \<le> 0" using False by (simp add: ceiling_le_iff)
    moreover have "0 \<le> \<lfloor>y\<rfloor>" using True by simp
    moreover have "py_int x = \<lceil>x\<rceil>" "py_int y = \<lfloor>y\<rfloor>"
      using False True by (simp_all add: py_int_def)
    ultimately show ?thesis by linarith
  next
    case y: False
    then show ?thesis using False assms by (simp add: py_int_def ceiling_mono)
  qed
qed

lemma py_int_nonpos: "x \<le> 0 \<Longrightarrow> py_int x \<le> 0"
  unfolding py_int_def by auto

lemma fl64_finite_bound:
  assumes "\<bar>x\<bar> \<le> 2 powi 1023"
  shows "fl64_finite (fl64 x)"
proof -
  have "\<bar>fl64 x\<bar> \<le> 2 powi 1023" using assms by (intro fl64_abs_le) simp_all
  also have "(2::real) powi 1023 < 2 powi 1024" by (intro power_int_strict_increasing) simp_all
  finally show ?thesis by (simp add: fl64_finite_def)
qed

lemma as_float_bound:
  assumes "\<bar>x\<bar> \<le> 2 powi 1023"
  shows "as_float x = Inr (fl64 x)"
  using fl64_finite_bound [OF assms] by (simp add: as_float_def)

lemma fl64_numeral: "(numeral k :: int) < 2 ^ 53 \<Longrightarrow> fl64 (numeral k) = numeral k"
  using fl64_int [of "numeral k"] by simp

lemma fl32_numeral: "(numeral k :: int) < 2 ^ 24 \<Longrightarrow> fl32 (numeral k) = numeral k"
  using fl32_int [of "numeral k"] by simp

lemma fl32_rel_error:
  assumes "1 \<le> x"
  shows "\<bar>fl32 x - x\<bar> \<le> x / 2 ^ 24"
proof -
  have "(2::real) powi (- 149 + int 24 - 1) \<le> 1" by (simp add: power_int_minus)
  then have "2 powi (- 149 + int 24 - 1) \<le> \<bar>x\<bar>" using assms by linarith
  from round_float_rel_error [OF this]
  show ?thesis using assms by (simp add: fl32_def power_int_minus field_simps)
qed

subsection \<open>Band edges\<close>

lemma clamp_cutoffs_value:
  fixes sr low high :: real
  assumes "\<bar>sr\<bar> \<le> 2 powi 1023" and "- (2 powi 1023) \<le> high"
  defines "hi0 \<equiv> fl64 (min high (fl64 (fl64 (fl64 sr / 2) - 1)))"
  defines "lo \<equiv> fl64 (max 1 (min low (fl64 (hi0 - 1))))"
  shows "clamp_cutoffs sr low high = Inr (lo, if hi0 \<le> lo then fl64 (lo + 1) else hi0)"
    and "1 \<le> lo"
proof -
  define nyq where "nyq = fl64 (fl64 sr / 2)"
  have p: "(2::real) powi 1023 = 2 * 2 powi 1022"
    using power_int_add [of "2::real" 1 1022] by simp
  have one: "(1::real) \<le> 2 powi 1022" by (rule one_le_power_int) simp_all
  have s: "\<bar>fl64 sr\<bar> \<le> 2 powi 1023" using assms(1) by (rule fl64_abs_le) simp
  then have "\<bar>fl64 sr / 2\<bar> \<le> 2 powi 1022" using p by simp
  then have n: "\<bar>nyq\<bar> \<le> 2 powi 1022" unfolding nyq_def by (rule fl64_abs_le) simp
  then have "\<bar>nyq - 1\<bar> \<le> 2 powi 1023" using p one by linarith
  then have z: "\<bar>fl64 (nyq - 1)\<bar> \<le> 2 powi 1023" by (rule fl64_abs_le) simp
  have m0: "\<bar>min high (fl64 (nyq - 1))\<bar> \<le> 2 powi 1023"
    using z assms(2) by (auto simp: min_def abs_le_iff)
  have a1: "as_float (min high (fl64 (nyq - 1))) = Inr hi0"
    using as_float_bound [OF m0] by (simp add: hi0_def nyq_def)
  have h: "\<bar>hi0\<bar> \<le> 2 powi 1023"
    unfolding hi0_def nyq_def [symmetric] using m0 by (rule fl64_abs_le) simp
  have "hi0 - 1 \<le> 2 powi 1023" using h by linarith
  then have "fl64 (hi0 - 1) \<le> fl64 (2 powi 1023)" by (rule fl64_mono)
  moreover have "fl64 (2 powi 1023) = 2 powi 1023" by (rule fl64_pow2) simp
  ultimately have w: "fl64 (hi0 - 1) \<le> 2 powi 1023" by (simp only:)
  have x1: "1 \<le> max 1 (min low (fl64 (hi0 - 1)))" by simp
  have "max 1 (min low (fl64 (hi0 - 1))) \<le> 2 powi 1023"
    using w one p by (auto simp: max_def min_def)
  then have x: "\<bar>max 1 (min low (fl64 (hi0 - 1)))\<bar> \<le> 2 powi 1023" using x1 by linarith
  have a2: "as_float (max 1 (min low (fl64 (hi0 - 1)))) = Inr lo"
    using as_float_bound [OF x] by (simp add: lo_def)
  show "clamp_cutoffs sr low high = Inr (lo, if hi0 \<le> lo then fl64 (lo + 1) else hi0)"
    using as_float_bound [OF assms(1)] a1 a2
    by (simp add: clamp_cutoffs_def Let_def nyq_def)
  have "fl64 1 \<le> lo" unfolding lo_def using x1 by (rule fl64_mono)
  then show "1 \<le> lo" by (simp add: fl64_one)
qed

lemma clamp_cutoffs_order:
  fixes lo hi0 :: real
  assumes "fl64 lo = lo"
  shows "lo \<le> (if hi0 \<le> lo then fl64 (lo + 1) else hi0)"
proof (cases "hi0 \<le> lo")
  case True
  have "fl64 lo \<le> fl64 (lo + 1)" by (rule fl64_mono) simp
  then show ?thesis using True assms by simp
next
  case False
  then show ?thesis by simp
qed

lemma geomspace_values:
  assumes "0 < lo" and "0 < hi" and "1 \<le> B"
  shows "geomspace lo hi (B + 1) =
           Inr (map (\<lambda>i. lo * (hi / lo) powr (real i / real_of_int B)) [0..<nat B + 1])"
proof -
  have "(if i = 0 then lo else if int i = B + 1 - 1 then hi
         else lo * (hi / lo) powr (real i / real_of_int (B + 1 - 1)))
        = lo * (hi / lo) powr (real i / real_of_int B)" for i :: nat
  proof -
    have "lo * (hi / lo) powr (real i / real_of_int B) = hi" if "int i = B"
    proof -
      have "real i / real_of_int B = 1" using that assms(3) by simp
      then show ?thesis using assms by simp
    qed
    then show ?thesis using assms by auto
  qed
  then show ?thesis using assms by (simp add: geomspace_def nat_add_distrib)
qed

lemma geom_mono:
  fixes lo hi :: real
  assumes "1 \<le> lo" and "lo \<le> hi" and "1 \<le> B" and "i \<le> j"
  shows "lo * (hi / lo) powr (real i / real_of_int B) \<le> lo * (hi / lo) powr (real j / real_of_int B)"
proof -
  have r: "1 \<le> hi / lo" using assms by simp
  have "real i / real_of_int B \<le> real j / real_of_int B"
    using assms by (simp add: divide_right_mono)
  then have "(hi / lo) powr (real i / real_of_int B) \<le> (hi / lo) powr (real j / real_of_int B)"
    using r by (rule powr_mono)
  then show ?thesis using assms by simp
qed

lemma geom_ge_lo:
  fixes lo hi :: real
  assumes "1 \<le> lo" and "lo \<le> hi" and "1 \<le> B"
  shows "lo \<le> lo * (hi / lo) powr (real i / real_of_int B)"
  using geom_mono [OF assms, of 0 i] assms by simp

lemma geom_ratio:
  fixes lo hi :: real
  assumes "0 < lo" and "0 < hi" and "1 \<le> B"
  shows "lo * (hi / lo) powr (real (Suc i) / real_of_int B) =
         (hi / lo) powr (1 / real_of_int B) * (lo * (hi / lo) powr (real i / real_of_int B))"
proof -
  have "real (Suc i) / real_of_int B = 1 / real_of_int B + real i / real_of_int B"
    by (simp add: add_divide_distrib)
  then show ?thesis by (simp add: powr_add)
qed

text \<open>A step of the progression by a factor of \<open>1 + 2 ^ -22\<close> or more survives the cast.\<close>

lemma fl32_strict:
  assumes "1 \<le> x" and "(1 + 1 / 2 ^ 22) * x \<le> y"
  shows "fl32 x < fl32 y"
proof -
  have y1: "1 \<le> y"
  proof -
    have "x \<le> (1 + 1 / 2 ^ 22) * x" using assms(1) by (simp add: algebra_simps)
    then show ?thesis using assms by linarith
  qed
  have fx: "fl32 x \<le> x + x / 2 ^ 24" using fl32_rel_error [OF assms(1)] by linarith
  have fy: "y - y / 2 ^ 24 \<le> fl32 y" using fl32_rel_error [OF y1] by linarith
  have "x + x / 2 ^ 24 < (1 + 1 / 2 ^ 22) * x - ((1 + 1 / 2 ^ 22) * x) / 2 ^ 24"
    using assms(1) by (simp add: field_simps)
  also have "\<dots> \<le> y - y / 2 ^ 24" using assms(2) by (simp add: field_simps)
  finally show ?thesis using fx fy by linarith
qed

text \<open>
  Below \<open>2 ^ 25\<close> Hz the cap \<open>nyq - 1\<close> stays below the Nyquist frequency through both
  roundings, and a forced \<open>hi = lo + 1\<close> is 2.
\<close>

lemma fl64_small_error:
  assumes "\<bar>x\<bar> \<le> 2 ^ 25"
  shows "\<bar>fl64 x - x\<bar> \<le> 1 / 2 ^ 27"
proof -
  have "\<bar>x\<bar> * 2 powi (- 53) \<le> 2 ^ 25 * 2 powi (- 53)"
    using assms by (intro mult_right_mono) simp_all
  also have "\<dots> = 1 / 2 ^ 28" by (simp add: power_int_minus)
  finally have a: "\<bar>x\<bar> * 2 powi (- 53) \<le> 1 / 2 ^ 28" .
  have "(2::real) powi (- 1075) \<le> 2 powi (- 28)" by (intro power_int_increasing) simp_all
  then have b: "(2::real) powi (- 1075) \<le> 1 / 2 ^ 28" by (simp add: power_int_minus)
  show ?thesis using fl64_error [of x] a b by simp
qed

lemma clamp_cutoffs_nyquist:
  fixes sr low high :: real
  assumes "4 < sr" and "sr \<le> 2 ^ 25"
  defines "hi0 \<equiv> fl64 (min high (fl64 (fl64 (fl64 sr / 2) - 1)))"
  defines "lo \<equiv> fl64 (max 1 (min low (fl64 (hi0 - 1))))"
  shows "fl32 (if hi0 \<le> lo then fl64 (lo + 1) else hi0) < sr / 2"
proof -
  define s where "s = fl64 sr"
  define nyq where "nyq = fl64 (s / 2)"
  define w where "w = fl64 (nyq - 1)"
  have f4: "fl64 4 = 4" "fl64 2 = 2" "fl64 1 = 1" "fl64 (2 ^ 25) = 2 ^ 25" "fl64 (2 ^ 24) = 2 ^ 24"
    "fl64 (2 ^ 24 - 1) = 2 ^ 24 - 1"
    by (simp_all add: fl64_numeral fl64_one)
  have s4: "4 \<le> s" using fl64_mono [of 4 sr] assms(1) by (simp add: s_def f4)
  have s25: "s \<le> 2 ^ 25" using fl64_mono [OF assms(2)] f4 by (simp add: s_def)
  have n2: "2 \<le> nyq" using fl64_mono [of 2 "s / 2"] s4 by (simp add: nyq_def f4)
  have n24: "nyq \<le> 2 ^ 24" using fl64_mono [of "s / 2" "2 ^ 24"] s25 f4 by (simp add: nyq_def)
  have w1: "1 \<le> w" using fl64_mono [of 1 "nyq - 1"] n2 by (simp add: w_def f4)
  have w24: "w \<le> 2 ^ 24 - 1" using fl64_mono [of "nyq - 1" "2 ^ 24 - 1"] n24 f4 by (simp add: w_def)
  have "\<bar>sr\<bar> \<le> 2 ^ 25" using assms(1,2) by linarith
  then have "\<bar>fl64 sr - sr\<bar> \<le> 1 / 2 ^ 27" by (rule fl64_small_error)
  then have es: "s \<le> sr + 1 / 2 ^ 27" unfolding s_def by linarith
  have "\<bar>s / 2\<bar> \<le> 2 ^ 25" using s4 s25 by simp
  then have "\<bar>fl64 (s / 2) - s / 2\<bar> \<le> 1 / 2 ^ 27" by (rule fl64_small_error)
  then have en: "nyq \<le> s / 2 + 1 / 2 ^ 27" unfolding nyq_def by linarith
  have "\<bar>nyq - 1\<bar> \<le> 2 ^ 25" using n2 n24 by simp
  then have "\<bar>fl64 (nyq - 1) - (nyq - 1)\<bar> \<le> 1 / 2 ^ 27" by (rule fl64_small_error)
  then have ew: "w \<le> nyq - 1 + 1 / 2 ^ 27" unfolding w_def by linarith
  have "fl32 w \<le> w + w / 2 ^ 24" using fl32_rel_error [OF w1] by linarith
  moreover have "w / 2 ^ 24 \<le> (2 ^ 24 - 1) / 2 ^ 24" using w24 by (simp add: divide_right_mono)
  ultimately have fw: "fl32 w \<le> w + (1 - 1 / 2 ^ 24)" by (simp add: diff_divide_distrib)
  have top: "fl32 w < sr / 2" using fw ew en es by simp
  have "fl64 (min high w) \<le> fl64 w" by (rule fl64_mono) simp
  then have hw: "hi0 \<le> w" by (simp add: hi0_def w_def nyq_def s_def fl64_idem)
  show ?thesis
  proof (cases "hi0 \<le> lo")
    case False
    have "fl32 hi0 \<le> fl32 w" using hw by (rule fl32_mono)
    then show ?thesis using False top by simp
  next
    case True
    define m where "m = min low (fl64 (hi0 - 1))"
    have lo1: "lo = 1"
    proof (cases "m \<le> 1")
      case True
      then show ?thesis by (simp add: lo_def m_def [symmetric] max_def f4)
    next
      case False
      then have m1: "1 < m" by simp
      have lom: "lo = fl64 m" using m1 by (simp add: lo_def m_def [symmetric] max_def)
      have mf: "m \<le> fl64 (hi0 - 1)" by (simp add: m_def)
      have "lo \<le> fl64 (fl64 (hi0 - 1))" unfolding lom using mf by (rule fl64_mono)
      then have lof: "lo \<le> fl64 (hi0 - 1)" by (simp add: fl64_idem)
      have h2: "2 < hi0"
      proof (rule ccontr)
        assume "\<not> 2 < hi0"
        then have "hi0 - 1 \<le> 1" by simp
        then have "fl64 (hi0 - 1) \<le> fl64 1" by (rule fl64_mono)
        then show False using mf m1 by (simp add: f4)
      qed
      have "\<bar>hi0 - 1\<bar> \<le> 2 ^ 25" using h2 hw w24 by simp
      then have "\<bar>fl64 (hi0 - 1) - (hi0 - 1)\<bar> \<le> 1 / 2 ^ 27" by (rule fl64_small_error)
      then have "fl64 (hi0 - 1) \<le> hi0 - 1 + 1 / 2 ^ 27" by linarith
      then have "lo < hi0" using lof by simp
      then show ?thesis using True by simp
    qed
    have "fl32 (fl64 (lo + 1)) = 2" by (simp add: lo1 f4 fl32_numeral)
    then show ?thesis using True assms(1) by simp
  qed
qed

lemma one_plus_power_le:
  fixes x :: real
  assumes "0 \<le> x" and "2 * real n * x \<le> 1"
  shows "(1 + x) ^ n \<le> 1 + 2 * real n * x"
  using assms(2)
proof (induction n)
  case 0
  then show ?case by simp
next
  case (Suc n)
  have "2 * real n * x \<le> 2 * real (Suc n) * x" using assms(1) by (simp add: algebra_simps)
  then have s: "2 * real n * x \<le> 1" using Suc.prems by linarith
  have "(1 + x) ^ Suc n = (1 + x) * (1 + x) ^ n" by simp
  also have "\<dots> \<le> (1 + x) * (1 + 2 * real n * x)"
    using Suc.IH [OF s] assms(1) by (intro mult_left_mono) simp_all
  also have "\<dots> = 1 + 2 * real n * x + x + (2 * real n * x) * x" by (simp add: algebra_simps)
  also have "\<dots> \<le> 1 + 2 * real n * x + x + 1 * x"
    using s assms(1) by (intro add_left_mono mult_right_mono)
  also have "\<dots> = 1 + 2 * real (Suc n) * x" by (simp add: algebra_simps)
  finally show ?case .
qed

lemma root_lower_bound:
  fixes a b :: real
  assumes "0 < a" and "a ^ n \<le> b" and "0 < n"
  shows "a \<le> b powr (1 / real n)"
proof -
  have "a = (a powr real n) powr (1 / real n)"
    using assms(1,3) by (simp add: powr_powr)
  also have "\<dots> = (a ^ n) powr (1 / real n)"
    using assms(1) by (simp add: powr_realpow)
  also have "\<dots> \<le> b powr (1 / real n)"
    using assms by (intro powr_mono2) simp_all
  finally show ?thesis .
qed

lemma configured_ratio: "1 + 1 / 2 ^ 22 \<le> (12000 / 30 :: real) powr (1 / real_of_int 360)"
proof -
  have "(1 + 1 / 2 ^ 22 :: real) ^ 360 \<le> 1 + 2 * real 360 * (1 / 2 ^ 22)"
    by (rule one_plus_power_le) simp_all
  also have "\<dots> \<le> 400" by simp
  finally have "(1 + 1 / 2 ^ 22 :: real) ^ 360 \<le> 400" .
  then have "1 + 1 / 2 ^ 22 \<le> (400::real) powr (1 / real 360)"
    by (intro root_lower_bound) simp_all
  then show ?thesis by simp
qed

lemma fl64_3_2: "fl64 (3 / 2) = 3 / 2"
  using fl64_eval [of 0 "3 / 2"] by (simp add: py_round_def power_int_minus)

lemma fl64_half: "fl64 (1 / 2) = 1 / 2"
  using fl64_pow2 [of "- 1"] by (simp add: power_int_minus)

lemma fl32_2_24: "fl32 16777216 = 16777216"
  using fl32_pow2 [of 24] by simp

lemma fl32_2_24_1: "fl32 16777217 = 16777216"
  using fl32_eval [of 24 16777217] by (simp add: py_round_def)

lemma fl32_5e8: "fl32 499999999 = 500000000"
  using fl32_eval [of 28 499999999] by (simp add: py_round_def)

text \<open>
  Claim C3, amended. For every band count \<open>B \<ge> 1\<close>, a sample rate within the float64 range
  and a high cutoff not below \<open>-2 ^ 1023\<close>, the band edge calculator returns (never raises)
  \<open>B + 1\<close> edges: the float32 roundings of a geometric progression from the clamped low
  cutoff \<open>lo \<ge> 1\<close> to the clamped high cutoff \<open>hi \<ge> lo\<close>. The edges are non-decreasing, the
  first is at least 1, the last is the float32 nearest to \<open>hi\<close>. They are strictly increasing
  and finite when the common ratio of the progression is at least \<open>1 + 2 ^ -22\<close> and
  \<open>hi < 2 ^ 127\<close>. The last edge is below the Nyquist frequency \<open>sr / 2\<close> for every sample
  rate \<open>4 < sr \<le> 2 ^ 25\<close>.
\<close>

theorem compute_band_edges_geometric:
  assumes "1 \<le> B" and "\<bar>sr\<bar> \<le> 2 powi 1023" and "- (2 powi 1023) \<le> high"
  shows "\<exists>lo hi edges. clamp_cutoffs sr low high = Inr (lo, hi)
      \<and> compute_band_edges sr low high B = Inr edges
      \<and> length edges = nat B + 1
      \<and> 1 \<le> lo \<and> lo \<le> hi
      \<and> (\<forall>i\<le>nat B. edges ! i = fl32 (lo * (hi / lo) powr (real i / real_of_int B)))
      \<and> edges ! 0 = fl32 lo \<and> edges ! nat B = fl32 hi
      \<and> 1 \<le> edges ! 0
      \<and> sorted edges
      \<and> (1 + 1 / 2 ^ 22 \<le> (hi / lo) powr (1 / real_of_int B) \<and> hi < 2 ^ 127
            \<longrightarrow> sorted_wrt (<) edges \<and> edges ! nat B < 2 ^ 128)
      \<and> (4 < sr \<and> sr \<le> 2 ^ 25 \<longrightarrow> edges ! nat B < sr / 2)"
proof -
  define hi0 where "hi0 = fl64 (min high (fl64 (fl64 (fl64 sr / 2) - 1)))"
  define lo where "lo = fl64 (max 1 (min low (fl64 (hi0 - 1))))"
  define hi where "hi = (if hi0 \<le> lo then fl64 (lo + 1) else hi0)"
  define f where "f = (\<lambda>i. lo * (hi / lo) powr (real i / real_of_int B))"
  define edges where "edges = map fl32 (map f [0..<nat B + 1])"
  have c: "clamp_cutoffs sr low high = Inr (lo, hi)"
    using clamp_cutoffs_value(1) [OF assms(2,3), of low] by (simp add: hi_def lo_def hi0_def)
  have lo1: "1 \<le> lo"
    using clamp_cutoffs_value(2) [OF assms(2,3), of low] by (simp add: lo_def hi0_def)
  have "fl64 lo = lo" by (simp add: lo_def fl64_idem)
  then have lohi: "lo \<le> hi" unfolding hi_def by (rule clamp_cutoffs_order)
  have pos: "0 < lo" "0 < hi" using lo1 lohi by simp_all
  have e: "compute_band_edges sr low high B = Inr edges"
    using geomspace_values [OF pos assms(1)]
    by (simp add: compute_band_edges_def c edges_def f_def)
  have len: "length edges = nat B + 1"
    by (simp add: edges_def)
  have nth: "edges ! i = fl32 (f i)" if "i \<le> nat B" for i
    using that unfolding edges_def by (simp add: nth_map_upt del: upt_Suc)
  have f0: "f 0 = lo" using pos by (simp add: f_def)
  have nB: "real (nat B) = real_of_int B" using assms(1) by (simp add: of_nat_nat)
  have "real_of_int B \<noteq> 0" using assms(1) by simp
  then have "real_of_int B / real_of_int B = 1" by (rule divide_self)
  then have q: "real (nat B) / real_of_int B = 1" unfolding nB .
  have "(hi / lo) powr 1 = hi / lo" using pos by (intro powr_one) simp
  then have "f (nat B) = lo * (hi / lo)" unfolding f_def q by (simp only:)
  then have fB: "f (nat B) = hi" using pos by simp
  have e0: "edges ! 0 = fl32 lo" using nth [of 0] f0 by simp
  have eB: "edges ! nat B = fl32 hi" using nth [of "nat B"] fB by simp
  have "fl32 1 \<le> fl32 lo" using lo1 by (rule fl32_mono)
  then have e1: "1 \<le> edges ! 0" by (simp add: e0 fl32_one)
  have mono: "edges ! i \<le> edges ! j" if "i \<le> j" "j \<le> nat B" for i j
  proof -
    have "f i \<le> f j" unfolding f_def using lo1 lohi assms(1) that(1) by (rule geom_mono)
    then have "fl32 (f i) \<le> fl32 (f j)" by (rule fl32_mono)
    then show ?thesis using that nth [of i] nth [of j] by simp
  qed
  have srt: "sorted edges"
    unfolding sorted_iff_nth_mono using mono len by simp
  have strict: "sorted_wrt (<) edges \<and> edges ! nat B < 2 ^ 128"
    if h: "1 + 1 / 2 ^ 22 \<le> (hi / lo) powr (1 / real_of_int B) \<and> hi < 2 ^ 127"
  proof
    have step: "edges ! i < edges ! Suc i" if "Suc i \<le> nat B" for i
    proof -
      have "lo \<le> f i" unfolding f_def by (rule geom_ge_lo [OF lo1 lohi assms(1)])
      then have x1: "1 \<le> f i" using lo1 by linarith
      have "f (Suc i) = (hi / lo) powr (1 / real_of_int B) * f i"
        unfolding f_def using pos assms(1) by (rule geom_ratio)
      moreover have "(1 + 1 / 2 ^ 22) * f i \<le> (hi / lo) powr (1 / real_of_int B) * f i"
        using h x1 by (intro mult_right_mono) simp_all
      ultimately have "(1 + 1 / 2 ^ 22) * f i \<le> f (Suc i)" by simp
      then have "fl32 (f i) < fl32 (f (Suc i))" using x1 by (intro fl32_strict)
      then show ?thesis using that nth [of i] nth [of "Suc i"] by simp
    qed
    have "edges ! i < edges ! j" if "i < j" "j \<le> nat B" for i j
    proof -
      have "edges ! i < edges ! Suc i" using that by (intro step) simp
      also have "\<dots> \<le> edges ! j" using that by (intro mono) simp_all
      finally show ?thesis .
    qed
    then show "sorted_wrt (<) edges"
      unfolding sorted_wrt_iff_nth_less using len by simp
    have "fl32 hi \<le> fl32 (2 powi 127)" using h by (intro fl32_mono) simp
    also have "\<dots> = 2 powi 127" by (rule fl32_pow2) simp
    also have "\<dots> < (2::real) powi 128" by (intro power_int_strict_increasing) simp_all
    finally show "edges ! nat B < 2 ^ 128" by (simp add: eB)
  qed
  have nyq: "edges ! nat B < sr / 2" if "4 < sr \<and> sr \<le> 2 ^ 25"
  proof -
    have "4 < sr" "sr \<le> 2 ^ 25" using that by simp_all
    then have "fl32 hi < sr / 2"
      unfolding hi_def lo_def hi0_def by (rule clamp_cutoffs_nyquist)
    then show ?thesis by (simp add: eB)
  qed
  have all: "\<forall>i\<le>nat B. edges ! i = fl32 (lo * (hi / lo) powr (real i / real_of_int B))"
    using nth by (simp add: f_def)
  show ?thesis
  proof (intro exI conjI)
    show "clamp_cutoffs sr low high = Inr (lo, hi)" by (rule c)
    show "compute_band_edges sr low high B = Inr edges" by (rule e)
    show "length edges = nat B + 1" by (rule len)
    show "1 \<le> lo" by (rule lo1)
    show "lo \<le> hi" by (rule lohi)
    show "\<forall>i\<le>nat B. edges ! i = fl32 (lo * (hi / lo) powr (real i / real_of_int B))" by (rule all)
    show "edges ! 0 = fl32 lo" by (rule e0)
    show "edges ! nat B = fl32 hi" by (rule eB)
    show "1 \<le> edges ! 0" by (rule e1)
    show "sorted edges" by (rule srt)
    show "1 + 1 / 2 ^ 22 \<le> (hi / lo) powr (1 / real_of_int B) \<and> hi < 2 ^ 127
            \<longrightarrow> sorted_wrt (<) edges \<and> edges ! nat B < 2 ^ 128"
      using strict by (rule impI)
    show "4 < sr \<and> sr \<le> 2 ^ 25 \<longrightarrow> edges ! nat B < sr / 2"
      using nyq by (rule impI)
  qed
qed

text \<open>The configured run: 44100 Hz, 30 Hz to 12 kHz, 360 bands.\<close>

theorem compute_band_edges_geometric_witness:
  "\<exists>edges. compute_band_edges 44100 30 12000 360 = Inr edges
      \<and> length edges = 361
      \<and> edges ! 0 = 30
      \<and> edges ! 360 = 12000
      \<and> sorted_wrt (<) edges
      \<and> edges ! 360 < 44100 / 2"
proof -
  have c: "clamp_cutoffs 44100 30 12000 = Inr (30, 12000)"
    by (simp add: clamp_cutoffs_def as_float_def fl64_finite_def fl64_numeral Let_def)
  have h: "(1::int) \<le> 360" "\<bar>44100 :: real\<bar> \<le> 2 powi 1023" "- (2 powi 1023) \<le> (12000 :: real)"
    by simp_all
  obtain lo hi edges where t: "clamp_cutoffs 44100 30 12000 = Inr (lo, hi)"
      "compute_band_edges 44100 30 12000 360 = Inr edges"
      "length edges = nat 360 + 1"
      "edges ! 0 = fl32 lo" "edges ! nat 360 = fl32 hi"
      "1 + 1 / 2 ^ 22 \<le> (hi / lo) powr (1 / real_of_int 360) \<and> hi < 2 ^ 127
            \<longrightarrow> sorted_wrt (<) edges \<and> edges ! nat 360 < 2 ^ 128"
      "4 < (44100::real) \<and> (44100::real) \<le> 2 ^ 25 \<longrightarrow> edges ! nat 360 < 44100 / 2"
    using compute_band_edges_geometric [OF h, of 30] by blast
  have lh: "lo = 30" "hi = 12000" using t(1) c by simp_all
  have "sorted_wrt (<) edges" using t(6) configured_ratio unfolding lh by simp
  moreover have "edges ! 360 < 44100 / 2" using t(7) by simp
  moreover have "edges ! 0 = 30" "edges ! 360 = 12000"
    using t(4,5) by (simp_all add: lh fl32_numeral)
  moreover have "length edges = 361" using t(3) by simp
  ultimately show ?thesis using t(2) by blast
qed

text \<open>
  At \<open>sr = 3\<close> (above 2) the Nyquist frequency is 1.5, the clamped high cutoff 0.5 falls
  below the low cutoff 1 and is forced to 2: the last edge is above Nyquist. At 1 GHz, the
  cutoffs \<open>2 ^ 24\<close> and \<open>2 ^ 24 + 1\<close> round to the same float32, so the two edges are equal,
  and the cap \<open>nyq - 1 = 499999999\<close> rounds to the Nyquist frequency itself.
\<close>

theorem compute_band_edges_nyquist_counterexample:
  "(2::real) < 3
   \<and> compute_band_edges 3 30 12000 1 = Inr [1, 2] \<and> \<not> ([1, 2::real] ! 1 < 3 / 2)
   \<and> compute_band_edges 1000000000 16777216 16777217 1 = Inr [16777216, 16777216]
   \<and> \<not> sorted_wrt (<) [16777216, 16777216 :: real]
   \<and> compute_band_edges 1000000000 30 1000000000000 1 = Inr [30, 500000000]
   \<and> \<not> ([30, 500000000 :: real] ! 1 < 1000000000 / 2)"
proof -
  have c1: "clamp_cutoffs 3 30 12000 = Inr (1, 2)"
    by (simp add: clamp_cutoffs_def as_float_def fl64_finite_def fl64_numeral fl64_3_2 fl64_half
        fl64_uminus fl64_one Let_def)
  have c2: "clamp_cutoffs 1000000000 16777216 16777217 = Inr (16777216, 16777217)"
    by (simp add: clamp_cutoffs_def as_float_def fl64_finite_def fl64_numeral Let_def)
  have c3: "clamp_cutoffs 1000000000 30 1000000000000 = Inr (30, 499999999)"
    by (simp add: clamp_cutoffs_def as_float_def fl64_finite_def fl64_numeral Let_def)
  have g: "geomspace lo hi 2 = Inr [lo, hi]" if "lo \<noteq> 0" "hi \<noteq> 0" for lo hi
    using that by (simp add: geomspace_def upt_rec)
  have e1: "compute_band_edges 3 30 12000 1 = Inr [1, 2]"
    by (simp add: compute_band_edges_def c1 g fl32_one fl32_numeral)
  have e2: "compute_band_edges 1000000000 16777216 16777217 1 = Inr [16777216, 16777216]"
    by (simp add: compute_band_edges_def c2 g fl32_2_24 fl32_2_24_1)
  have e3: "compute_band_edges 1000000000 30 1000000000000 1 = Inr [30, 500000000]"
    by (simp add: compute_band_edges_def c3 g fl32_numeral fl32_5e8)
  show ?thesis using e1 e2 e3 by simp
qed

subsection \<open>Band aggregator\<close>

lemma add_at_in_bounds:
  assumes "list_all (\<lambda>p. 0 \<le> fst p \<and> fst p < int (length out)) ps"
  shows "add_at out ps =
           Inr (map (\<lambda>k. out ! k + sum_list (map snd (filter (\<lambda>p. fst p = int k) ps)))
                    [0..<length out])"
  using assms
proof (induction ps arbitrary: out)
  case Nil
  show ?case by (simp add: map_nth)
next
  case (Cons p ps)
  obtain i m where p: "p = (i, m)" by (cases p)
  from Cons.prems p have i: "0 \<le> i" "i < int (length out)" and
    rest: "list_all (\<lambda>p. 0 \<le> fst p \<and> fst p < int (length (out[nat i := out ! nat i + m]))) ps"
    by simp_all
  have "add_at out (p # ps) = add_at (out[nat i := out ! nat i + m]) ps"
    using i by (simp add: p Let_def)
  also have "\<dots> = Inr (map (\<lambda>k. (out[nat i := out ! nat i + m]) ! k
                               + sum_list (map snd (filter (\<lambda>p. fst p = int k) ps)))
                         [0..<length out])"
    using Cons.IH [OF rest] by simp
  also have "\<dots> = Inr (map (\<lambda>k. out ! k + sum_list (map snd (filter (\<lambda>p. fst p = int k) (p # ps))))
                         [0..<length out])"
    using i by (auto simp: p nth_list_update)
  finally show ?case .
qed

lemma searchsorted_right_bounds:
  "0 \<le> searchsorted_right a v" "searchsorted_right a v \<le> int (length a)"
  by (simp_all add: searchsorted_right_def length_takeWhile_le)

lemma band_index_bounds:
  assumes "2 \<le> length edges"
  shows "0 \<le> band_index edges f" and "band_index edges f < int (length edges) - 1"
  using assms by (auto simp: band_index_def np_clip_def)

lemma select_map_zip:
  assumes "length ys = length xs"
  shows "zip (map g (select (map P xs) xs)) (select (map P xs) ys) =
         map (\<lambda>p. (g (fst p), snd p)) (filter (\<lambda>p. P (fst p)) (zip xs ys))"
  using assms
proof (induction xs arbitrary: ys)
  case Nil
  then show ?case by (simp add: select_def)
next
  case (Cons x xs)
  then obtain y ys' where ys: "ys = y # ys'" by (cases ys) auto
  with Cons show ?case by (auto simp: select_def)
qed

lemma band_sums_value:
  assumes "2 \<le> length edges" and "length mags = length freqs"
  shows "band_sums freqs mags edges =
           Inr (map (\<lambda>k. sum_list (map snd (filter (\<lambda>p. in_range edges (fst p) \<and> band_index edges (fst p) = int k)
                                                   (zip freqs mags))))
                    [0..<length edges - 1])"
proof -
  let ?ps = "map (\<lambda>p. (band_index edges (fst p), snd p))
                 (filter (\<lambda>p. in_range edges (fst p)) (zip freqs mags))"
  let ?out = "replicate (nat (int (length edges) - 1)) (0::real)"
  have len: "length ?out = length edges - 1"
    using assms(1) by simp
  have b: "list_all (\<lambda>p. 0 \<le> fst p \<and> fst p < int (length ?out)) ?ps"
    using band_index_bounds [OF assms(1)] assms(1) by (auto simp: list_all_iff)
  have "band_sums freqs mags edges = add_at ?out ?ps"
    using assms(2) by (simp add: band_sums_def Let_def select_map_zip)
  also have "\<dots> = Inr (map (\<lambda>k. ?out ! k + sum_list (map snd (filter (\<lambda>p. fst p = int k) ?ps)))
                          [0..<length ?out])"
    by (rule add_at_in_bounds [OF b])
  also have "\<dots> = Inr (map (\<lambda>k. sum_list (map snd (filter (\<lambda>p. in_range edges (fst p) \<and> band_index edges (fst p) = int k)
                                                   (zip freqs mags))))
                    [0..<length edges - 1])"
    unfolding len by (auto simp: filter_map comp_def conj_commute)
  finally show ?thesis .
qed

lemma band_index_interval:
  assumes srt: "sorted_wrt (<) edges" and len: "2 \<le> length edges" and inr: "in_range edges f"
  shows "edges ! nat (band_index edges f) \<le> f"
    and "f < last edges \<Longrightarrow> f < edges ! (nat (band_index edges f) + 1)"
    and "f = last edges \<Longrightarrow> band_index edges f = int (length edges) - 2"
proof -
  let ?c = "length (takeWhile (\<lambda>e. e \<le> f) edges)"
  have c1: "1 \<le> ?c"
    using length_takeWhile_less_P_nth [of 1 "\<lambda>e. e \<le> f" edges] inr len
    by (simp add: in_range_def)
  have cle: "?c \<le> length edges" by (rule length_takeWhile_le)
  have below: "edges ! (?c - 1) \<le> f"
  proof -
    have "?c - 1 < ?c" using c1 by simp
    then have "takeWhile (\<lambda>e. e \<le> f) edges ! (?c - 1) \<in> set (takeWhile (\<lambda>e. e \<le> f) edges)"
      by (rule nth_mem)
    then have "takeWhile (\<lambda>e. e \<le> f) edges ! (?c - 1) \<le> f"
      by (auto dest: set_takeWhileD)
    then show ?thesis using \<open>?c - 1 < ?c\<close> by (simp add: takeWhile_nth)
  qed
  have mono: "edges ! i \<le> edges ! j" if "i \<le> j" "j < length edges" for i j
    using srt that by (cases "i = j") (auto simp: sorted_wrt_iff_nth_less less_imp_le)
  have ne: "edges \<noteq> []" using len by auto
  have lst: "last edges = edges ! (length edges - 1)"
    using ne by (simp add: last_conv_nth)
  show "edges ! nat (band_index edges f) \<le> f"
  proof (cases "?c = length edges")
    case True
    then have "band_index edges f = int (length edges) - 2"
      using len by (simp add: band_index_def np_clip_def searchsorted_right_def)
    then have "nat (band_index edges f) = length edges - 2" by simp
    moreover have "edges ! (length edges - 2) \<le> edges ! (?c - 1)"
      using True len by (intro mono) auto
    ultimately show ?thesis using below by simp
  next
    case False
    then have "band_index edges f = int ?c - 1"
      using cle c1 len by (simp add: band_index_def np_clip_def searchsorted_right_def)
    then have "nat (band_index edges f) = ?c - 1" by simp
    then show ?thesis using below by simp
  qed
  show "f < edges ! (nat (band_index edges f) + 1)" if "f < last edges"
  proof -
    have "?c \<noteq> length edges"
    proof
      assume eq: "?c = length edges"
      have "edges ! (length edges - 1) \<le> f" using below eq by simp
      then show False using that lst by simp
    qed
    then have lt: "?c < length edges" using cle by simp
    then have "band_index edges f = int ?c - 1"
      using c1 len by (simp add: band_index_def np_clip_def searchsorted_right_def)
    then have "nat (band_index edges f) + 1 = ?c" using c1 by simp
    moreover have "\<not> edges ! ?c \<le> f" using lt by (rule nth_length_takeWhile)
    ultimately show ?thesis by simp
  qed
  show "band_index edges f = int (length edges) - 2" if "f = last edges"
  proof -
    have "edges ! i \<le> f" if "i < length edges" for i
      using mono [of i "length edges - 1"] that lst \<open>f = last edges\<close> len by simp
    then have "length edges \<le> ?c"
      by (intro length_takeWhile_less_P_nth) auto
    then have "?c = length edges" using cle by simp
    then show ?thesis using len by (simp add: band_index_def np_clip_def searchsorted_right_def)
  qed
qed

lemma band_index_unique:
  assumes srt: "sorted_wrt (<) edges" and j: "j + 1 < length edges"
    and lo: "edges ! j \<le> f" and hi: "f < edges ! (j + 1)"
  shows "band_index edges f = int j"
proof -
  let ?c = "length (takeWhile (\<lambda>e. e \<le> f) edges)"
  have mono: "edges ! i \<le> edges ! k" if "i \<le> k" "k < length edges" for i k
    using srt that by (cases "i = k") (auto simp: sorted_wrt_iff_nth_less less_imp_le)
  have "edges ! i \<le> f" if "i < j + 1" for i
    using mono [of i j] that j lo by simp
  then have ge: "j + 1 \<le> ?c"
    using j by (intro length_takeWhile_less_P_nth) auto
  have "?c \<le> j + 1"
  proof (rule ccontr)
    assume "\<not> ?c \<le> j + 1"
    then have "j + 1 < ?c" by simp
    then have "takeWhile (\<lambda>e. e \<le> f) edges ! (j + 1) \<in> set (takeWhile (\<lambda>e. e \<le> f) edges)"
      by (rule nth_mem)
    then have "takeWhile (\<lambda>e. e \<le> f) edges ! (j + 1) \<le> f"
      by (auto dest: set_takeWhileD)
    then have "edges ! (j + 1) \<le> f" using \<open>j + 1 < ?c\<close> by (simp add: takeWhile_nth)
    then show False using hi by simp
  qed
  then have "?c = j + 1" using ge by simp
  then show ?thesis using j by (simp add: band_index_def np_clip_def searchsorted_right_def)
qed








lemma length_convolve_same: "length (convolve_same a v) = length a"
  by (simp add: convolve_same_def)

lemma length_smooth: "length (smooth out) = length out"
  by (simp add: smooth_def Let_def pad_edge_def length_convolve_same)





lemma length_compress_smooth: "length (compress_smooth totals) = length totals"
  by (simp add: compress_smooth_def Let_def length_smooth)


lemma np_max_Max: "out \<noteq> [] \<Longrightarrow> np_max out = Inr (Max (set out))"
  using Max.set_eq_fold [of "hd out" "tl out"] by (cases out) simp_all




lemma normalize_bands_total: "out \<noteq> [] \<Longrightarrow> \<exists>res. normalize_bands out = Inr res"
  by (simp add: normalize_bands_def np_max_Max)

text \<open>
  Claim C1, amended. With strictly increasing edges, \<open>B \<ge> 1\<close> bands and as many magnitudes as
  frequencies, the aggregator's accumulation step returns \<open>B\<close> sums, and the sum of band
  \<open>i\<close> is the total magnitude of the kept bins (\<open>edges[0] \<le> f \<le> edges[B]\<close>) whose band
  index is \<open>i\<close>; a band that no kept bin maps to has sum 0. The band index of a kept bin
  \<open>f\<close> lies in \<open>[0, B-1]\<close> and is the band with \<open>edges[i] \<le> f < edges[i+1]\<close> (left edge
  included, right edge excluded); only \<open>f = edges[B]\<close> is clamped, into band \<open>B-1\<close>.
\<close>

theorem band_sums_half_open_bands:
  assumes "sorted_wrt (<) edges" and "2 \<le> length edges" and "length mags = length freqs"
  shows "(\<exists>acc. band_sums freqs mags edges = Inr acc
            \<and> length acc = length edges - 1
            \<and> (\<forall>i<length edges - 1.
                  acc ! i = sum_list (map snd (filter (\<lambda>p. in_range edges (fst p)
                                                        \<and> band_index edges (fst p) = int i)
                                                   (zip freqs mags)))
                  \<and> ((\<forall>f\<in>set freqs. in_range edges f \<longrightarrow> band_index edges f \<noteq> int i)
                       \<longrightarrow> acc ! i = 0)))
       \<and> (\<forall>f. in_range edges f \<longrightarrow>
              0 \<le> band_index edges f
            \<and> band_index edges f \<le> int (length edges) - 2
            \<and> edges ! nat (band_index edges f) \<le> f
            \<and> (f < last edges \<longrightarrow> f < edges ! (nat (band_index edges f) + 1))
            \<and> (f = last edges \<longrightarrow> band_index edges f = int (length edges) - 2))
       \<and> (\<forall>f j. j + 1 < length edges \<and> edges ! j \<le> f \<and> f < edges ! (j + 1)
              \<longrightarrow> band_index edges f = int j)"
proof (intro conjI)
  let ?s = "\<lambda>i. sum_list (map snd (filter (\<lambda>p. in_range edges (fst p) \<and> band_index edges (fst p) = int i)
                                         (zip freqs mags)))"
  have none: "?s i = 0" if "\<forall>f\<in>set freqs. in_range edges f \<longrightarrow> band_index edges f \<noteq> int i" for i
  proof -
    have "filter (\<lambda>p. in_range edges (fst p) \<and> band_index edges (fst p) = int i) (zip freqs mags) = []"
      using that by (auto simp: filter_empty_conv dest: set_zip_leftD)
    then show ?thesis by simp
  qed
  show "\<exists>acc. band_sums freqs mags edges = Inr acc
            \<and> length acc = length edges - 1
            \<and> (\<forall>i<length edges - 1.
                  acc ! i = ?s i
                  \<and> ((\<forall>f\<in>set freqs. in_range edges f \<longrightarrow> band_index edges f \<noteq> int i)
                       \<longrightarrow> acc ! i = 0))"
    using band_sums_value [OF assms(2,3)] none by (simp del: upt_Suc)
  show "\<forall>f. in_range edges f \<longrightarrow>
              0 \<le> band_index edges f
            \<and> band_index edges f \<le> int (length edges) - 2
            \<and> edges ! nat (band_index edges f) \<le> f
            \<and> (f < last edges \<longrightarrow> f < edges ! (nat (band_index edges f) + 1))
            \<and> (f = last edges \<longrightarrow> band_index edges f = int (length edges) - 2)"
  proof (intro allI impI)
    fix f assume r: "in_range edges f"
    have "band_index edges f \<le> int (length edges) - 2"
      using band_index_bounds(2) [OF assms(2), of f] by simp
    then show "0 \<le> band_index edges f
            \<and> band_index edges f \<le> int (length edges) - 2
            \<and> edges ! nat (band_index edges f) \<le> f
            \<and> (f < last edges \<longrightarrow> f < edges ! (nat (band_index edges f) + 1))
            \<and> (f = last edges \<longrightarrow> band_index edges f = int (length edges) - 2)"
      using band_index_bounds(1) [OF assms(2), of f] band_index_interval [OF assms(1,2) r]
      by simp
  qed
  show "\<forall>f j. j + 1 < length edges \<and> edges ! j \<le> f \<and> f < edges ! (j + 1)
              \<longrightarrow> band_index edges f = int j"
    using band_index_unique [OF assms(1)] by blast
qed

theorem band_sums_half_open_bands_witness:
  "band_sums [1, 2, 3, 4, 5, 1 / 2] [5, 6, 7, 8, 9, 10] [1, 2, 4] = Inr [5, 21]
   \<and> band_index [1, 2, 4] 1 = 0 \<and> band_index [1, 2, 4] 3 = 1 \<and> band_index [1, 2, 4] 4 = 1"
proof -
  have "sorted_wrt (<) [1, 2, 4 :: real]" by simp
  from band_sums_half_open_bands [OF this, of "[5, 6, 7, 8, 9, 10]" "[1, 2, 3, 4, 5, 1 / 2]"]
  obtain acc where a: "band_sums [1, 2, 3, 4, 5, 1 / 2] [5, 6, 7, 8, 9, 10] [1, 2, 4] = Inr acc"
    and l: "length acc = 2"
    and v: "\<forall>i<2. acc ! i = sum_list (map snd (filter (\<lambda>p. in_range [1, 2, 4] (fst p)
                                                        \<and> band_index [1, 2, 4] (fst p) = int i)
                                                   (zip [1, 2, 3, 4, 5, 1 / 2] [5, 6, 7, 8, 9, 10])))"
    by auto
  have bi: "band_index [1, 2, 4] 1 = 0" "band_index [1, 2, 4] 2 = 1" "band_index [1, 2, 4] 3 = 1"
    "band_index [1, 2, 4] 4 = 1"
    by (simp_all add: band_index_def searchsorted_right_def np_clip_def)
  have "acc ! 0 = 5" "acc ! 1 = 21"
    using v by (simp_all add: in_range_def band_index_def searchsorted_right_def np_clip_def)
  then have "acc = [5, 21]" using l by (auto simp: nth_equalityI less_Suc_eq numeral_2_eq_2 intro!: nth_equalityI)
  then show ?thesis using a bi by simp
qed

theorem band_sums_right_closed_counterexample:
  "in_range [1, 2, 4] 2
   \<and> ([1, 2, 4 :: real] ! 0 < 2 \<and> 2 \<le> [1, 2, 4 :: real] ! 1)
   \<and> band_index [1, 2, 4] 2 = 1
   \<and> band_sums [2] [5] [1, 2, 4] = Inr [0, 5]"
  by (simp add: in_range_def band_index_def searchsorted_right_def np_clip_def band_sums_def
      select_def Let_def numeral_2_eq_2)




lemma length_rfft: "length (rfft x) = length x div 2 + 1"
  by (simp add: rfft_def)

lemma length_rfftfreq: "length (rfftfreq n d) = n div 2 + 1"
  by (simp add: rfftfreq_def)



lemma spectrum_to_bands_total:
  assumes "2 \<le> length edges" and "length mags = length freqs"
  shows "\<exists>out. spectrum_to_bands freqs mags edges = Inr out \<and> length out = length edges - 1"
proof (cases "list_ex (\<lambda>b. b) (map (in_range edges) freqs)")
  case False
  then show ?thesis
    using assms(1) by (auto simp: spectrum_to_bands_def Let_def nat_diff_distrib)
next
  case True
  from band_sums_value [OF assms] obtain totals where
    t: "band_sums freqs mags edges = Inr totals" and l: "length totals = length edges - 1"
    by simp
  have "compress_smooth totals \<noteq> []"
    using length_compress_smooth [of totals] l assms(1) by auto
  from normalize_bands_total [OF this] obtain out where
    n: "normalize_bands (compress_smooth totals) = Inr out" ..
  have "length out = length edges - 1"
  proof -
    from n obtain mx where "out = (if mx > 1 / 10 ^ 8 then map (\<lambda>x. x / mx) (compress_smooth totals)
                                   else compress_smooth totals)"
      by (auto simp: normalize_bands_def split: sum.splits)
    then show ?thesis using l by (simp add: length_compress_smooth)
  qed
  moreover have "edges \<noteq> []" using assms(1) by auto
  ultimately show ?thesis
    using True t n by (simp add: spectrum_to_bands_def Let_def)
qed





subsection \<open>Spectral analyzer\<close>

text \<open>
  Claim C7. A sequence of length \<open>n \<le> 1\<close> gives the single bin \<open>([0], [0])\<close>. A longer one
  (with a non-zero sample rate) gives \<open>n div 2 + 1\<close> magnitudes, the moduli of the one-sided
  discrete Fourier transform, and as many bin centres \<open>k * sr / n\<close>; for a positive sample
  rate these lie in \<open>[0, sr / 2]\<close>, and the last one is the Nyquist frequency when \<open>n\<close> is even.
\<close>

theorem fft_magnitude_one_sided:
  "(length sig \<le> 1 \<longrightarrow> fft_magnitude sig sr = Inr ([0], [0]))
   \<and> (1 < length sig \<and> sr \<noteq> 0 \<longrightarrow>
        (\<exists>freqs mags. fft_magnitude sig sr = Inr (freqs, mags)
           \<and> length mags = length sig div 2 + 1
           \<and> length freqs = length mags
           \<and> (\<forall>k\<le>length sig div 2.
                 mags ! k = cmod (\<Sum>j\<leftarrow>[0..<length sig]. complex_of_real (sig ! j)
                                    * cis (- (2 * pi * real j * real k / real (length sig))))
               \<and> freqs ! k = real k * sr / real (length sig))
           \<and> (0 < sr \<longrightarrow> list_all (\<lambda>f. 0 \<le> f \<and> f \<le> sr / 2) freqs)
           \<and> (even (length sig) \<longrightarrow> last freqs = sr / 2)))"
proof (intro conjI impI)
  assume "length sig \<le> 1"
  then show "fft_magnitude sig sr = Inr ([0], [0])"
    by (simp add: fft_magnitude_def)
next
  assume a: "1 < length sig \<and> sr \<noteq> 0"
  define n where "n = length sig"
  have n: "1 < n" and sr: "sr \<noteq> 0" using a by (simp_all add: n_def)
  define freqs where "freqs = rfftfreq n (1 / sr)"
  define mags where "mags = map cmod (rfft sig)"
  have r: "fft_magnitude sig sr = Inr (freqs, mags)"
    using n sr by (simp add: fft_magnitude_def Let_def freqs_def mags_def n_def)
  have lm: "length mags = n div 2 + 1"
    by (simp add: mags_def length_rfft n_def)
  have lf: "length freqs = length mags"
    by (simp add: lm freqs_def length_rfftfreq)
  have fk: "freqs ! k = real k * sr / real n" if "k \<le> n div 2" for k
    using that by (simp add: freqs_def rfftfreq_def nth_map_upt del: upt_Suc)
  have mk: "mags ! k = cmod (\<Sum>j\<leftarrow>[0..<n]. complex_of_real (sig ! j)
                                    * cis (- (2 * pi * real j * real k / real n)))"
    if "k \<le> n div 2" for k
    using that by (simp add: mags_def rfft_def n_def nth_map_upt del: upt_Suc)
  have rng: "list_all (\<lambda>f. 0 \<le> f \<and> f \<le> sr / 2) freqs" if "0 < sr"
  proof -
    have "0 \<le> real k * sr / real n \<and> real k * sr / real n \<le> sr / 2" if "k \<le> n div 2" for k
    proof -
      have "2 * k \<le> n" using that by simp
      then have "2 * real k \<le> real n" by (metis of_nat_le_iff of_nat_mult of_nat_numeral)
      then have "real k / real n \<le> 1 / 2" using n by (simp add: field_simps)
      then have "sr * (real k / real n) \<le> sr * (1 / 2)"
        using \<open>0 < sr\<close> by (intro mult_left_mono) simp_all
      then show ?thesis using \<open>0 < sr\<close> by (simp add: mult.commute)
    qed
    then have "\<forall>i<length freqs. 0 \<le> freqs ! i \<and> freqs ! i \<le> sr / 2"
      using fk lf lm by simp
    then show ?thesis by (simp add: list_all_length)
  qed
  have lst: "last freqs = sr / 2" if "even n"
  proof -
    have "freqs \<noteq> []" using lf lm by auto
    then have "last freqs = freqs ! (n div 2)"
      using lf lm by (simp add: last_conv_nth)
    also have "\<dots> = real (n div 2) * sr / real n" by (simp add: fk)
    also have "real (n div 2) = real n / 2"
      using that by (simp add: real_of_nat_div)
    finally show ?thesis using n by simp
  qed
  show "\<exists>freqs mags. fft_magnitude sig sr = Inr (freqs, mags)
           \<and> length mags = length sig div 2 + 1
           \<and> length freqs = length mags
           \<and> (\<forall>k\<le>length sig div 2.
                 mags ! k = cmod (\<Sum>j\<leftarrow>[0..<length sig]. complex_of_real (sig ! j)
                                    * cis (- (2 * pi * real j * real k / real (length sig))))
               \<and> freqs ! k = real k * sr / real (length sig))
           \<and> (0 < sr \<longrightarrow> list_all (\<lambda>f. 0 \<le> f \<and> f \<le> sr / 2) freqs)
           \<and> (even (length sig) \<longrightarrow> last freqs = sr / 2)"
    using r lm lf fk mk rng lst unfolding n_def by blast
qed

theorem fft_magnitude_one_sided_witness:
  "fft_magnitude [5] 44100 = Inr ([0], [0])
   \<and> (\<exists>freqs mags. fft_magnitude [1, - 1] 44100 = Inr (freqs, mags)
         \<and> length mags = 2 \<and> length freqs = 2 \<and> last freqs = 22050)"
  using fft_magnitude_one_sided [of "[5]" 44100] fft_magnitude_one_sided [of "[1, - 1]" 44100]
  by (auto simp: numeral_2_eq_2)

subsection \<open>Audio window extractor\<close>

text \<open>
  A window that float64 resolves at \<open>t\<close>: the first range computed is not empty.
\<close>

lemma window_bounds:
  assumes "0 \<le> t" and "2 powi (- 1000) \<le> win" and "t \<le> 2 ^ 50 * win"
  defines "h \<equiv> fl64 (win / 2)"
  shows "fl64 (t - h) < fl64 (t + h)" and "fl64 (t - h) < t \<or> fl64 (t - h) \<le> 0"
    and "0 < fl64 (t + h)"
    and "\<bar>fl64 (t + h) - fl64 (t - h) - win\<bar> \<le> (2 * t + 3 * win) * 2 powi (- 53) + 2 powi (- 1073)"
proof -
  define eps :: real where "eps = 2 powi (- 53)"
  define del :: real where "del = 2 powi (- 1075)"
  define te where "te = t * eps"
  define he where "he = h * eps"
  define we where "we = win * eps"
  have win0: "0 < win"
  proof -
    have "(0::real) < 2 powi (- 1000)" by simp
    then show ?thesis using assms(2) by linarith
  qed
  have eps8: "0 < eps" "eps \<le> 1 / 2 ^ 53" unfolding eps_def by (simp_all add: power_int_minus)
  have del0: "0 < del" unfolding del_def by simp
  have "2 ^ 75 * del = (2::real) powi 75 * 2 powi (- 1075)" by (simp add: del_def)
  also have "\<dots> = 2 powi (- 1000)" by (simp add: power_int_add [symmetric])
  finally have del_win: "2 ^ 75 * del \<le> win" using assms(2) by simp
  have d4: "4 * del = 2 powi (- 1073)"
  proof -
    have "4 * del = (2::real) powi 2 * 2 powi (- 1075)" by (simp add: del_def)
    also have "\<dots> = 2 powi (- 1073)" by (simp add: power_int_add [symmetric])
    finally show ?thesis .
  qed
  have h0: "0 \<le> h" unfolding h_def using win0 by (intro fl64_nonneg) simp
  have te0: "0 \<le> te" unfolding te_def using assms(1) eps8 by simp
  have "te \<le> (2 ^ 50 * win) * eps" unfolding te_def using assms(3) eps8 by (intro mult_right_mono) simp_all
  also have "\<dots> \<le> (2 ^ 50 * win) * (1 / 2 ^ 53)" using eps8 win0 by (intro mult_left_mono) simp_all
  also have "\<dots> = win / 8" by simp
  finally have te8: "te \<le> win / 8" .
  have we0: "0 \<le> we" unfolding we_def using win0 eps8 by simp
  have "we \<le> win * (1 / 2 ^ 53)" unfolding we_def using eps8 win0 by (intro mult_left_mono) simp_all
  then have we8: "we \<le> win / 8" using win0 by (simp add: field_simps)
  have he0: "0 \<le> he" unfolding he_def using h0 eps8 by simp
  have "\<bar>h - win / 2\<bar> \<le> \<bar>win / 2\<bar> * eps + del"
    unfolding h_def eps_def del_def by (rule fl64_error)
  then have hb: "\<bar>h - win / 2\<bar> \<le> we / 2 + del" using win0 by (simp add: we_def)
  have del_small: "del \<le> win / 16"
  proof -
    have "16 * del \<le> 2 ^ 75 * del" using del0 by (intro mult_right_mono) simp_all
    then show ?thesis using del_win by linarith
  qed
  have hwin: "h \<le> win" using hb we8 del_small win0 by linarith
  have "he \<le> win * eps" unfolding he_def using hwin eps8 by (intro mult_right_mono) simp_all
  then have hewe: "he \<le> we" by (simp add: we_def)
  have y0: "0 \<le> t + h" using assms(1) h0 by simp
  have "\<bar>fl64 (t + h) - (t + h)\<bar> \<le> \<bar>t + h\<bar> * eps + del"
    unfolding eps_def del_def by (rule fl64_error)
  then have fy: "\<bar>fl64 (t + h) - (t + h)\<bar> \<le> te + he + del"
    using y0 by (simp add: te_def he_def algebra_simps)
  have "\<bar>t - h\<bar> \<le> t + h" using assms(1) h0 by linarith
  then have "\<bar>t - h\<bar> * eps \<le> (t + h) * eps" using eps8 by (intro mult_right_mono) simp_all
  then have xe: "\<bar>t - h\<bar> * eps \<le> te + he" by (simp add: te_def he_def algebra_simps)
  have "\<bar>fl64 (t - h) - (t - h)\<bar> \<le> \<bar>t - h\<bar> * eps + del"
    unfolding eps_def del_def by (rule fl64_error)
  then have fx: "\<bar>fl64 (t - h) - (t - h)\<bar> \<le> te + he + del" using xe by linarith
  show "fl64 (t - h) < fl64 (t + h)"
    using fx fy hb te8 we8 hewe del_small win0 by linarith
  show "0 < fl64 (t + h)"
    using fy hb te8 we8 hewe del_small win0 assms(1) te0 by linarith
  show "fl64 (t - h) < t \<or> fl64 (t - h) \<le> 0"
    using fx hb te8 we8 hewe del_small win0 by linarith
  have "\<bar>fl64 (t + h) - fl64 (t - h) - win\<bar> \<le> 2 * te + 3 * we + 4 * del"
    using fx fy hb hewe by linarith
  moreover have "2 * te + 3 * we + 4 * del = (2 * t + 3 * win) * eps + 4 * del"
    by (simp add: te_def we_def algebra_simps)
  ultimately have "\<bar>fl64 (t + h) - fl64 (t - h) - win\<bar> \<le> (2 * t + 3 * win) * eps + 4 * del"
    by (simp only:)
  then show "\<bar>fl64 (t + h) - fl64 (t - h) - win\<bar> \<le> (2 * t + 3 * win) * 2 powi (- 53) + 2 powi (- 1073)"
    unfolding d4 eps_def .
qed

lemma window_range_inside:
  assumes "0 \<le> t" and "t < D" and "2 powi (- 1000) \<le> win" and "t \<le> 2 ^ 50 * win"
  shows "window_range cfg D t win =
           Inr (max 0 (fl64 (t - fl64 (win / 2))), min D (fl64 (t + fl64 (win / 2))))"
    and "max 0 (fl64 (t - fl64 (win / 2))) < min D (fl64 (t + fl64 (win / 2)))"
proof -
  note b = window_bounds [OF assms(1,3,4)]
  show lt: "max 0 (fl64 (t - fl64 (win / 2))) < min D (fl64 (t + fl64 (win / 2)))"
    using b(1,2,3) assms(1,2) by (auto simp: max_def min_def)
  then have "\<not> min D (fl64 (t + fl64 (win / 2))) \<le> max 0 (fl64 (t - fl64 (win / 2)))"
    by (simp only: not_le)
  then show "window_range cfg D t win =
           Inr (max 0 (fl64 (t - fl64 (win / 2))), min D (fl64 (t + fl64 (win / 2))))"
    unfolding window_range_def Let_def by (rule if_not_P)
qed

lemma fallback_length_value:
  assumes "\<bar>sr\<bar> \<le> 2 powi 1023" and "\<bar>fl64 sr * win\<bar> \<le> 2 powi 1023"
  shows "fallback_length sr win = Inr (py_int (fl64 (fl64 sr * win)))"
  using as_float_bound [OF assms(1)] fl64_finite_bound [OF assms(2)]
  by (simp add: fallback_length_def Let_def)

lemma get_audio_window_cases:
  assumes "has_subclip c \<or> has_subclipped c"
    and "window_range cfg D t win = Inr (s, e)"
  shows "get_audio_window cfg c D t win sr =
           (let arr = to_mono (to_soundarray c s e sr) in
            if arr = [] then
              (case fallback_length sr win of
                 Inl e \<Rightarrow> Inl e
               | Inr k \<Rightarrow> if k < 0 then Inl ValueError else Inr (replicate (nat k) 0))
            else Inr (map (\<lambda>(a, b). a * b) (zip arr (hanning (length arr)))))"
  using assms by (auto simp: get_audio_window_def subclip_compat_def Let_def)

lemma length_hanning: "length (hanning n) = n"
  by (simp add: hanning_def)

text \<open>The float64 values used below.\<close>

lemma fl64_tenth: "fl64 (1 / 10) = 3602879701896397 / 2 ^ 55"
  using fl64_eval [of "- 4" "1 / 10"] by (simp add: py_round_def power_int_minus)

lemma fl64_44100: "fl64 44100 = 44100"
  using fl64_int [of 44100] by simp

lemma fl64_window_samples: "fl64 (44100 * (3602879701896397 / 2 ^ 55)) = 4410"
  using fl64_eval [of 12 "44100 * (3602879701896397 / 2 ^ 55)"]
  by (simp add: py_round_def power_int_minus)

lemma fl64_29_100: "fl64 (29 / 100) = 5224175567749775 / 2 ^ 54"
  using fl64_eval [of "- 2" "29 / 100"] by (simp add: py_round_def power_int_minus)

lemma fl64_100: "fl64 100 = 100"
  using fl64_int [of 100] by simp

lemma fl64_29_samples: "fl64 (100 * (5224175567749775 / 2 ^ 54)) = 8162774324609023 / 2 ^ 48"
  using fl64_eval [of 4 "100 * (5224175567749775 / 2 ^ 54)"]
  by (simp add: py_round_def power_int_minus)

lemma fl64_quarter: "fl64 (1 / 4) = 1 / 4"
  using fl64_pow2 [of "- 2"] by (simp add: power_int_minus)

lemma fl64_7_4: "fl64 (7 * (1 / 4)) = 7 / 4"
  using fl64_eval [of 0 "7 * (1 / 4)"] by (simp add: py_round_def power_int_minus)

lemma fl64_7: "fl64 7 = 7"
  using fl64_int [of 7] by simp

lemma fl64_7_10: "fl64 (7 * (3602879701896397 / 2 ^ 55)) = 6305039478318695 / 2 ^ 53"
  using fl64_eval [of "- 1" "7 * (3602879701896397 / 2 ^ 55)"]
  by (simp add: py_round_def power_int_minus)

text \<open>
  Claim C5, amended. For a timestamp \<open>0 \<le> t < D\<close> and a window that float64 resolves at
  \<open>t\<close> (\<open>win \<ge> 2 ^ -1000\<close> and \<open>t \<le> 2 ^ 50 * win\<close>) the extractor asks the clip for the
  non-empty range from \<open>s = max(0, t - win / 2)\<close> to \<open>e = min(D, t + win / 2)\<close>, each operation
  rounded to float64. The range lasts \<open>win\<close> seconds up to rounding, the nominal window of
  \<open>win * sr\<close> samples, and less where it is cut at the start or the end of the track. If the
  mono signal of that range is non-empty the result is that signal times a Hann window, of
  the same length (at least 1). If it is empty the result is not an error but
  \<open>int(sr * win)\<close> zeros, the float64 product truncated, not rounded; so the result has at
  least one sample whenever the float64 product is at least 1. For the configured window of
  0.1 s at 44100 Hz the fallback length is 4410, which is also the rounded product.
\<close>

theorem get_audio_window_length:
  assumes "has_subclip c \<or> has_subclipped c" and "0 \<le> t" and "t < D"
    and "2 powi (- 1000) \<le> win" and "t \<le> 2 ^ 50 * win"
    and "0 \<le> sr" and "sr \<le> 2 powi 1023" and "fl64 sr * win \<le> 2 powi 1023"
  shows "(let h = fl64 (win / 2);
              s = max 0 (fl64 (t - h));
              e = min D (fl64 (t + h));
              arr = to_mono (to_soundarray c s e sr)
          in window_range cfg D t win = Inr (s, e)
           \<and> s < e
           \<and> e - s \<le> win + ((2 * t + 3 * win) * 2 powi (- 53) + 2 powi (- 1073))
           \<and> (0 \<le> fl64 (t - h) \<and> fl64 (t + h) \<le> D
                \<longrightarrow> \<bar>e - s - win\<bar> \<le> (2 * t + 3 * win) * 2 powi (- 53) + 2 powi (- 1073))
           \<and> (arr \<noteq> []
                \<longrightarrow> get_audio_window cfg c D t win sr
                      = Inr (map (\<lambda>(a, b). a * b) (zip arr (hanning (length arr))))
                  \<and> length (map (\<lambda>(a, b). a * b) (zip arr (hanning (length arr)))) = length arr
                  \<and> 1 \<le> length arr)
           \<and> (arr = []
                \<longrightarrow> get_audio_window cfg c D t win sr
                      = Inr (replicate (nat \<lfloor>fl64 (fl64 sr * win)\<rfloor>) 0))
           \<and> (1 \<le> fl64 sr * win
                \<longrightarrow> (\<exists>w. get_audio_window cfg c D t win sr = Inr w \<and> 1 \<le> length w)))
       \<and> nat \<lfloor>fl64 (fl64 (SR default_config) * WINDOW_SEC default_config)\<rfloor> = 4410
       \<and> py_round (fl64 (WINDOW_SEC default_config * fl64 (SR default_config))) = 4410"
proof -
  define h where "h = fl64 (win / 2)"
  define s where "s = max 0 (fl64 (t - h))"
  define e where "e = min D (fl64 (t + h))"
  define arr where "arr = to_mono (to_soundarray c s e sr)"
  define beta where "beta = (2 * t + 3 * win) * 2 powi (- 53) + 2 powi (- 1073)"
  note b = window_bounds [OF assms(2,4,5), folded h_def]
  note r = window_range_inside(1) [OF assms(2,3,4,5), of cfg, folded h_def, folded s_def e_def]
    window_range_inside(2) [OF assms(2,3,4,5), folded h_def, folded s_def e_def]
  note g = get_audio_window_cases [OF assms(1) r(1), of sr, folded arr_def]
  have win0: "0 < win"
  proof -
    have "(0::real) < 2 powi (- 1000)" by simp
    then show ?thesis using assms(4) by linarith
  qed
  have sr0: "0 \<le> fl64 sr" using assms(6) by (rule fl64_nonneg)
  have p0: "0 \<le> fl64 sr * win" using sr0 win0 by simp
  have x0: "0 \<le> fl64 (fl64 sr * win)" using p0 by (rule fl64_nonneg)
  have fb: "fallback_length sr win = Inr \<lfloor>fl64 (fl64 sr * win)\<rfloor>"
    using fallback_length_value [of sr win] assms(6,7,8) p0 x0 by (simp add: py_int_def)
  have span: "e - s \<le> win + beta"
  proof -
    have "e \<le> fl64 (t + h)" "fl64 (t - h) \<le> s" by (simp_all add: e_def s_def)
    then show ?thesis using b(4) unfolding beta_def by linarith
  qed
  have inner: "\<bar>e - s - win\<bar> \<le> beta" if "0 \<le> fl64 (t - h) \<and> fl64 (t + h) \<le> D"
  proof -
    have "e = fl64 (t + h)" "s = fl64 (t - h)" using that by (simp_all add: e_def s_def)
    then show ?thesis using b(4) unfolding beta_def by simp
  qed
  have ne: "get_audio_window cfg c D t win sr
              = Inr (map (\<lambda>(a, b). a * b) (zip arr (hanning (length arr))))
            \<and> length (map (\<lambda>(a, b). a * b) (zip arr (hanning (length arr)))) = length arr
            \<and> 1 \<le> length arr" if "arr \<noteq> []"
  proof -
    have "1 \<le> length arr" using that by (simp add: Suc_le_eq)
    then show ?thesis using that g by (simp add: Let_def length_hanning)
  qed
  have em: "get_audio_window cfg c D t win sr = Inr (replicate (nat \<lfloor>fl64 (fl64 sr * win)\<rfloor>) 0)"
    if "arr = []"
    using that g fb x0 by (simp add: Let_def)
  have one: "\<exists>w. get_audio_window cfg c D t win sr = Inr w \<and> 1 \<le> length w"
    if "1 \<le> fl64 sr * win"
  proof (cases "arr = []")
    case True
    have "fl64 1 \<le> fl64 (fl64 sr * win)" using that by (rule fl64_mono)
    then have "1 \<le> \<lfloor>fl64 (fl64 sr * win)\<rfloor>" by (simp add: fl64_one)
    then have "1 \<le> nat \<lfloor>fl64 (fl64 sr * win)\<rfloor>" by linarith
    then show ?thesis using em [OF True] by simp
  next
    case False
    then show ?thesis using ne by simp
  qed
  have k: "SR default_config = 44100" "WINDOW_SEC default_config = fl64 (1 / 10)"
    by (simp_all add: default_config_def)
  have d1: "nat \<lfloor>fl64 (fl64 (SR default_config) * WINDOW_SEC default_config)\<rfloor> = 4410"
    unfolding k fl64_44100 fl64_tenth fl64_window_samples by simp
  have c: "3602879701896397 / 2 ^ 55 * 44100 = 44100 * (3602879701896397 / 2 ^ 55 :: real)"
    by (rule mult.commute)
  have d2: "py_round (fl64 (WINDOW_SEC default_config * fl64 (SR default_config))) = 4410"
    unfolding k fl64_44100 fl64_tenth c fl64_window_samples
    using py_round_of_int [of 4410] by simp
  have "window_range cfg D t win = Inr (s, e)
           \<and> s < e
           \<and> e - s \<le> win + beta
           \<and> (0 \<le> fl64 (t - h) \<and> fl64 (t + h) \<le> D \<longrightarrow> \<bar>e - s - win\<bar> \<le> beta)
           \<and> (arr \<noteq> []
                \<longrightarrow> get_audio_window cfg c D t win sr
                      = Inr (map (\<lambda>(a, b). a * b) (zip arr (hanning (length arr))))
                  \<and> length (map (\<lambda>(a, b). a * b) (zip arr (hanning (length arr)))) = length arr
                  \<and> 1 \<le> length arr)
           \<and> (arr = []
                \<longrightarrow> get_audio_window cfg c D t win sr
                      = Inr (replicate (nat \<lfloor>fl64 (fl64 sr * win)\<rfloor>) 0))
           \<and> (1 \<le> fl64 sr * win
                \<longrightarrow> (\<exists>w. get_audio_window cfg c D t win sr = Inr w \<and> 1 \<le> length w))"
    using r span inner ne em one by blast
  then show ?thesis
    unfolding Let_def h_def [symmetric] s_def [symmetric] e_def [symmetric] arr_def [symmetric]
      beta_def [symmetric]
    using d1 d2 by blast
qed

theorem get_audio_window_length_witness:
  "get_audio_window default_config empty_clip 2 (1 / 2) (fl64 (1 / 10)) 44100 = Inr (replicate 4410 0)
   \<and> get_audio_window default_config empty_clip 2 (1 / 2) (fl64 (29 / 100)) 100 = Inr (replicate 28 0)
   \<and> (\<exists>w. get_audio_window default_config stereo_clip 2 (1 / 2) (fl64 (1 / 10)) 44100 = Inr w
          \<and> length w = 2)"
proof -
  have e: "has_subclip empty_clip \<or> has_subclipped empty_clip" by (simp add: empty_clip_def)
  have s: "has_subclip stereo_clip \<or> has_subclipped stereo_clip" by (simp add: stereo_clip_def)
  have w1: "2 powi (- 1000) \<le> fl64 (1 / 10)" "1 / 2 \<le> 2 ^ 50 * fl64 (1 / 10)"
    "fl64 44100 * fl64 (1 / 10) \<le> 2 powi 1023"
    unfolding fl64_tenth fl64_44100 by (simp_all add: power_int_minus)
  have w2: "2 powi (- 1000) \<le> fl64 (29 / 100)" "1 / 2 \<le> 2 ^ 50 * fl64 (29 / 100)"
    "fl64 100 * fl64 (29 / 100) \<le> 2 powi 1023"
    unfolding fl64_29_100 fl64_100 by (simp_all add: power_int_minus)
  have r: "(0::real) \<le> 1 / 2" "(1 / 2 :: real) < 2" "(0::real) \<le> 44100" "(44100::real) \<le> 2 powi 1023"
    "(0::real) \<le> 100" "(100::real) \<le> 2 powi 1023"
    by simp_all
  note t1 = get_audio_window_length [OF e r(1,2) w1(1,2) r(3,4) w1(3), of default_config]
  note t2 = get_audio_window_length [OF e r(1,2) w2(1,2) r(5,6) w2(3), of default_config]
  note t3 = get_audio_window_length [OF s r(1,2) w1(1,2) r(3,4) w1(3), of default_config]
  have a1: "get_audio_window default_config empty_clip 2 (1 / 2) (fl64 (1 / 10)) 44100
              = Inr (replicate (nat \<lfloor>fl64 (fl64 44100 * fl64 (1 / 10))\<rfloor>) 0)"
    using t1 by (simp add: Let_def empty_clip_def)
  have a2: "get_audio_window default_config empty_clip 2 (1 / 2) (fl64 (29 / 100)) 100
              = Inr (replicate (nat \<lfloor>fl64 (fl64 100 * fl64 (29 / 100))\<rfloor>) 0)"
    using t2 by (simp add: Let_def empty_clip_def)
  have a3: "\<exists>w. get_audio_window default_config stereo_clip 2 (1 / 2) (fl64 (1 / 10)) 44100 = Inr w
          \<and> length w = 2"
    using t3 by (simp add: Let_def stereo_clip_def)
  have v1: "nat \<lfloor>fl64 (fl64 44100 * fl64 (1 / 10))\<rfloor> = 4410"
    unfolding fl64_44100 fl64_tenth fl64_window_samples by simp
  have v2: "nat \<lfloor>fl64 (fl64 100 * fl64 (29 / 100))\<rfloor> = 28"
    unfolding fl64_100 fl64_29_100 fl64_29_samples by simp
  show ?thesis using a1 a2 a3 unfolding v1 v2 by blast
qed

text \<open>
  With an empty sub-range, a window of 0.25 s at 7 Hz gives \<open>int(1.75) = 1\<close> zero, while
  \<open>round(1.75) = 2\<close>; a window of 0.1 s at 7 Hz gives \<open>int(0.7) = 0\<close> zeros, an empty
  window.
\<close>

theorem get_audio_window_round_counterexample:
  "get_audio_window default_config empty_clip 2 (1 / 2) (1 / 4) 7 = Inr [0]
   \<and> py_round (fl64 (1 / 4 * fl64 7)) = 2
   \<and> length [0 :: real] \<noteq> nat (py_round (fl64 (1 / 4 * fl64 7)))
   \<and> get_audio_window default_config empty_clip 2 (1 / 2) (fl64 (1 / 10)) 7 = Inr []"
proof -
  have e: "has_subclip empty_clip \<or> has_subclipped empty_clip" by (simp add: empty_clip_def)
  have r: "(0::real) \<le> 1 / 2" "(1 / 2 :: real) < 2" by simp_all
  have w1: "2 powi (- 1000) \<le> (1 / 4 :: real)" "1 / 2 \<le> 2 ^ 50 * (1 / 4 :: real)"
    by (simp_all add: power_int_minus)
  have w2: "2 powi (- 1000) \<le> fl64 (1 / 10)" "1 / 2 \<le> 2 ^ 50 * fl64 (1 / 10)"
    unfolding fl64_tenth by (simp_all add: power_int_minus)
  obtain s1 e1 where r1: "window_range default_config 2 (1 / 2) (1 / 4) = Inr (s1, e1)"
    using window_range_inside(1) [OF r w1] by blast
  obtain s2 e2 where r2: "window_range default_config 2 (1 / 2) (fl64 (1 / 10)) = Inr (s2, e2)"
    using window_range_inside(1) [OF r w2] by blast
  have f1: "fallback_length 7 (1 / 4) = Inr 1"
    using fallback_length_value [of 7 "1 / 4"] unfolding fl64_7 fl64_7_4
    by (simp add: py_int_def)
  have f2: "fallback_length 7 (fl64 (1 / 10)) = Inr 0"
    using fallback_length_value [of 7 "fl64 (1 / 10)"] unfolding fl64_7 fl64_tenth fl64_7_10
    by (simp add: py_int_def)
  have a1: "get_audio_window default_config empty_clip 2 (1 / 2) (1 / 4) 7 = Inr [0]"
    using get_audio_window_cases [OF e r1, of 7] f1 by (simp add: empty_clip_def)
  have a2: "get_audio_window default_config empty_clip 2 (1 / 2) (fl64 (1 / 10)) 7 = Inr []"
    using get_audio_window_cases [OF e r2, of 7] f2 by (simp add: empty_clip_def)
  have c: "1 / 4 * 7 = (7 * (1 / 4) :: real)" by simp
  have p: "py_round (fl64 (1 / 4 * fl64 7)) = 2"
    unfolding fl64_7 c fl64_7_4 by (simp add: py_round_def)
  show ?thesis using a1 a2 p by simp
qed

subsection \<open>Radial renderer\<close>

lemma bar_height_mono:
  assumes "0 \<le> BAR_MAX_EXTRA cfg" and "x \<le> y"
  shows "bar_height cfg x \<le> bar_height cfg y"
proof -
  have "min (max x 0) 1 \<le> min (max y 0) 1" using assms(2) by (auto simp: min_def max_def)
  moreover have "0 \<le> min (max x 0) 1" by simp
  ultimately have "(min (max x 0) 1) powr (9 / 10) \<le> (min (max y 0) 1) powr (9 / 10)"
    by (intro powr_mono2) simp_all
  then show ?thesis
    using assms(1) by (simp add: bar_height_def mult_left_mono)
qed

lemma length_draw_spokes: "length (draw_spokes cfg levels color width) = length levels"
  by (simp add: draw_spokes_def linspace_open_def Let_def)

lemma draw_spokes_nth:
  assumes "i < length levels"
  shows "draw_spokes cfg levels color width ! i =
           spoke cfg color (max 1 (case width of None \<Rightarrow> BAR_THICKNESS cfg | Some v \<Rightarrow> v))
             (2 * pi * real i / real (length levels), bar_height cfg (levels ! i))"
  using assms by (simp add: draw_spokes_def linspace_open_def Let_def mult_ac)

text \<open>
  Claim C4. A bar for level \<open>l\<close> has length
  \<open>h = BAR_MIN + BAR_MAX_EXTRA * clamp(l, 0, 1) ^ 0.9\<close>: \<open>BAR_MIN\<close> at level 0 (and below),
  \<open>BAR_MIN + BAR_MAX_EXTRA\<close> at level 1 (and above), and non-decreasing in the level for a
  non-negative \<open>BAR_MAX_EXTRA\<close>. Bar \<open>i\<close> of \<open>B\<close> is the segment from
  \<open>(cx + R cos \<theta>, cy + R sin \<theta>)\<close> to \<open>(cx + (R + h) cos \<theta>, cy + (R + h) sin \<theta>)\<close> at
  \<open>\<theta> = 2 \<pi> i / B\<close>.
\<close>

theorem draw_spokes_bar_geometry:
  "bar_height cfg l = BAR_MIN cfg + BAR_MAX_EXTRA cfg * (min (max l 0) 1) powr (9 / 10)
   \<and> bar_height cfg 0 = BAR_MIN cfg
   \<and> bar_height cfg 1 = BAR_MIN cfg + BAR_MAX_EXTRA cfg
   \<and> (0 \<le> BAR_MAX_EXTRA cfg \<and> x \<le> y \<longrightarrow> bar_height cfg x \<le> bar_height cfg y)
   \<and> length (draw_spokes cfg levels color width) = length levels
   \<and> (\<forall>i<length levels.
         draw_spokes cfg levels color width ! i =
           Line (fst (CENTER cfg) + BASE_RADIUS cfg * cos (2 * pi * real i / real (length levels)),
                 snd (CENTER cfg) + BASE_RADIUS cfg * sin (2 * pi * real i / real (length levels)))
                (fst (CENTER cfg) + (BASE_RADIUS cfg + bar_height cfg (levels ! i))
                                     * cos (2 * pi * real i / real (length levels)),
                 snd (CENTER cfg) + (BASE_RADIUS cfg + bar_height cfg (levels ! i))
                                     * sin (2 * pi * real i / real (length levels)))
                color (max 1 (case width of None \<Rightarrow> BAR_THICKNESS cfg | Some v \<Rightarrow> v)))"
proof (intro conjI allI impI)
  show "bar_height cfg l = BAR_MIN cfg + BAR_MAX_EXTRA cfg * (min (max l 0) 1) powr (9 / 10)"
    by (simp add: bar_height_def)
  show "bar_height cfg 0 = BAR_MIN cfg"
    by (simp add: bar_height_def)
  show "bar_height cfg 1 = BAR_MIN cfg + BAR_MAX_EXTRA cfg"
    by (simp add: bar_height_def)
  show "bar_height cfg x \<le> bar_height cfg y" if "0 \<le> BAR_MAX_EXTRA cfg \<and> x \<le> y"
    using that bar_height_mono by blast
  show "length (draw_spokes cfg levels color width) = length levels"
    by (rule length_draw_spokes)
  fix i assume "i < length levels"
  then show "draw_spokes cfg levels color width ! i =
           Line (fst (CENTER cfg) + BASE_RADIUS cfg * cos (2 * pi * real i / real (length levels)),
                 snd (CENTER cfg) + BASE_RADIUS cfg * sin (2 * pi * real i / real (length levels)))
                (fst (CENTER cfg) + (BASE_RADIUS cfg + bar_height cfg (levels ! i))
                                     * cos (2 * pi * real i / real (length levels)),
                 snd (CENTER cfg) + (BASE_RADIUS cfg + bar_height cfg (levels ! i))
                                     * sin (2 * pi * real i / real (length levels)))
                color (max 1 (case width of None \<Rightarrow> BAR_THICKNESS cfg | Some v \<Rightarrow> v))"
    by (simp add: draw_spokes_nth spoke_def Let_def split: prod.splits)
qed

theorem draw_spokes_bar_geometry_witness:
  "bar_height default_config 0 = 4
   \<and> bar_height default_config 1 = 74
   \<and> bar_height default_config (1 / 4) \<le> bar_height default_config (1 / 2)
   \<and> draw_spokes default_config [0, 1] (255, 255, 255, 255) None
       = [Line (2140, 864) (2144, 864) (255, 255, 255, 255) 2,
          Line (1700, 864) (1626, 864) (255, 255, 255, 255) 2]"
proof -
  note t = draw_spokes_bar_geometry [where cfg = default_config and x = "1 / 4" and y = "1 / 2"
      and levels = "[0, 1]" and color = "(255, 255, 255, 255)" and width = None and l = 0]
  have a: "bar_height default_config 0 = 4" "bar_height default_config 1 = 74"
    using t by (simp_all add: default_config_def)
  have b: "bar_height default_config (1 / 4) \<le> bar_height default_config (1 / 2)"
    using t by (simp add: default_config_def)
  have c: "draw_spokes default_config [0, 1] (255, 255, 255, 255) None
       = [Line (2140, 864) (2144, 864) (255, 255, 255, 255) 2,
          Line (1700, 864) (1626, 864) (255, 255, 255, 255) 2]"
  proof -
    have k: "CENTER default_config = (1920, 864)" "BASE_RADIUS default_config = 220"
      "BAR_THICKNESS default_config = 2"
      by (simp_all add: default_config_def)
    show ?thesis
      by (simp add: draw_spokes_def linspace_open_def spoke_def Let_def a k upt_rec)
  qed
  show ?thesis using a b c by blast
qed

text \<open>Inside the loop the quotient \<open>(i - 1) / N\<close> is a float in \<open>[0, 1]\<close>.\<close>

lemma glow_quotient:
  assumes "1 \<le> i" and "i \<le> N"
  shows "int_truediv (i - 1) (max 1 N) = Inr (fl64 (real_of_int (i - 1) / real_of_int N))"
    and "0 \<le> fl64 (real_of_int (i - 1) / real_of_int N)"
    and "fl64 (real_of_int (i - 1) / real_of_int N) \<le> 1"
proof -
  have N: "1 \<le> N" using assms by simp
  have q0: "0 \<le> real_of_int (i - 1) / real_of_int N" using assms by simp
  have q1: "real_of_int (i - 1) / real_of_int N \<le> 1" using assms by simp
  show a: "0 \<le> fl64 (real_of_int (i - 1) / real_of_int N)" using q0 by (rule fl64_nonneg)
  show b: "fl64 (real_of_int (i - 1) / real_of_int N) \<le> 1"
    using fl64_mono [OF q1] by (simp add: fl64_one)
  have "fl64_finite (fl64 (real_of_int (i - 1) / real_of_int N))"
    using a b by (simp add: fl64_finite_def)
  then show "int_truediv (i - 1) (max 1 N) = Inr (fl64 (real_of_int (i - 1) / real_of_int N))"
    using N by (simp add: int_truediv_def max_def)
qed

lemma glow_alpha_value:
  assumes "1 \<le> i" and "i \<le> GLOW_STEPS cfg" and "\<bar>real_of_int (GLOW_ALPHA cfg)\<bar> \<le> 2 powi 1023"
  shows "glow_alpha cfg i =
           Inr (max 0 (py_int (fl64 (fl64 (real_of_int (GLOW_ALPHA cfg))
                  * fl64 (1 - fl64 (real_of_int (i - 1) / real_of_int (GLOW_STEPS cfg)))))))"
proof -
  define q where "q = fl64 (real_of_int (i - 1) / real_of_int (GLOW_STEPS cfg))"
  define s where "s = fl64 (1 - q)"
  define a where "a = fl64 (real_of_int (GLOW_ALPHA cfg))"
  note gq = glow_quotient [OF assms(1,2)]
  have s0: "0 \<le> s" unfolding s_def using gq(3) by (intro fl64_nonneg) (simp add: q_def)
  have "fl64 (1 - q) \<le> fl64 1" using gq(2) by (intro fl64_mono) (simp add: q_def)
  then have s1: "s \<le> 1" by (simp add: s_def fl64_one)
  have a: "\<bar>a\<bar> \<le> 2 powi 1023" unfolding a_def using assms(3) by (intro fl64_abs_le) simp_all
  have "\<bar>a * s\<bar> = \<bar>a\<bar> * s" using s0 by (simp add: abs_mult)
  also have "\<dots> \<le> \<bar>a\<bar> * 1" using s1 by (intro mult_left_mono) simp_all
  finally have "\<bar>a * s\<bar> \<le> 2 powi 1023" using a by simp
  then have "fl64_finite (fl64 (a * s))" by (rule fl64_finite_bound)
  then show ?thesis
    using gq(1) as_float_bound [OF assms(3)]
    by (simp add: glow_alpha_def Let_def q_def s_def a_def)
qed

lemma glow_alpha_antimono:
  assumes "1 \<le> i" and "i \<le> j" and "j \<le> GLOW_STEPS cfg"
    and "\<bar>real_of_int (GLOW_ALPHA cfg)\<bar> \<le> 2 powi 1023"
  shows "\<exists>a b. glow_alpha cfg i = Inr a \<and> glow_alpha cfg j = Inr b \<and> b \<le> a"
proof -
  define N where "N = real_of_int (GLOW_STEPS cfg)"
  define A where "A = fl64 (real_of_int (GLOW_ALPHA cfg))"
  define s where "s = (\<lambda>k. fl64 (1 - fl64 (real_of_int (k - 1) / N)))"
  have N: "0 < N" using assms by (simp add: N_def)
  have i: "1 \<le> i" "i \<le> GLOW_STEPS cfg" and j: "1 \<le> j" "j \<le> GLOW_STEPS cfg"
    using assms by simp_all
  have vi: "glow_alpha cfg i = Inr (max 0 (py_int (fl64 (A * s i))))"
    using glow_alpha_value [OF i assms(4)] by (simp add: A_def s_def N_def)
  have vj: "glow_alpha cfg j = Inr (max 0 (py_int (fl64 (A * s j))))"
    using glow_alpha_value [OF j assms(4)] by (simp add: A_def s_def N_def)
  have "real_of_int (i - 1) / N \<le> real_of_int (j - 1) / N"
    using assms N by (simp add: divide_right_mono)
  then have "fl64 (real_of_int (i - 1) / N) \<le> fl64 (real_of_int (j - 1) / N)"
    by (rule fl64_mono)
  then have sji: "s j \<le> s i" unfolding s_def by (intro fl64_mono) simp
  have sj0: "0 \<le> s j"
    unfolding s_def using glow_quotient(3) [OF j] by (intro fl64_nonneg) (simp add: N_def)
  have "max 0 (py_int (fl64 (A * s j))) \<le> max 0 (py_int (fl64 (A * s i)))"
  proof (cases "0 \<le> A")
    case True
    then have "A * s j \<le> A * s i" using sji by (intro mult_left_mono)
    then have "py_int (fl64 (A * s j)) \<le> py_int (fl64 (A * s i))"
      by (intro py_int_mono fl64_mono)
    then show ?thesis by simp
  next
    case False
    then have "A * s j \<le> 0" using sj0 by (simp add: mult_le_0_iff)
    then have "py_int (fl64 (A * s j)) \<le> 0" by (intro py_int_nonpos fl64_nonpos)
    then show ?thesis by simp
  qed
  then show ?thesis using vi vj by simp
qed

lemma glow_width_strict:
  assumes "0 < GLOW_EXPAND cfg" and "i < j"
  shows "glow_width cfg i < glow_width cfg j"
  using assms by (simp add: glow_width_def)

lemma draw_spokes_color_width:
  assumes "c \<in> set (draw_spokes cfg levels color width)"
  shows "\<exists>p q. c = Line p q color (max 1 (case width of None \<Rightarrow> BAR_THICKNESS cfg | Some v \<Rightarrow> v))"
  using assms by (auto simp: draw_spokes_def spoke_def Let_def split: prod.splits)

lemma glow_passes_Inr:
  assumes "\<And>i. i \<in> set idx \<Longrightarrow> glow_alpha cfg i = Inr (al i)"
  shows "glow_passes cfg levels idx =
           Inr (concat (map (\<lambda>i. draw_spokes cfg levels (255, 255, 255, al i)
                                   (Some (glow_width cfg i))) idx))"
  using assms by (induction idx) simp_all

text \<open>The float64 values behind the alphas of three and of five passes at base alpha 80.\<close>

lemma fl64_third: "fl64 (1 / 3) = 6004799503160661 / 2 ^ 54"
  using fl64_eval [of "- 2" "1 / 3"] by (simp add: py_round_def power_int_minus)

lemma fl64_two_thirds: "fl64 (2 / 3) = 6004799503160661 / 2 ^ 53"
  using fl64_eval [of "- 1" "2 / 3"] by (simp add: py_round_def power_int_minus)

lemma fl64_one_minus_third: "fl64 (1 - 6004799503160661 / 2 ^ 54) = 6004799503160662 / 2 ^ 53"
  using fl64_eval [of "- 1" "1 - 6004799503160661 / 2 ^ 54"]
  by (simp add: py_round_def power_int_minus)

lemma fl64_one_minus_two_thirds: "fl64 (1 - 6004799503160661 / 2 ^ 53) = 3002399751580331 / 2 ^ 53"
  using fl64_eval [of "- 2" "1 - 6004799503160661 / 2 ^ 53"]
  by (simp add: py_round_def power_int_minus)

lemma fl64_alpha_3_2: "fl64 (80 * (6004799503160662 / 2 ^ 53)) = 7505999378950828 / 2 ^ 47"
  using fl64_eval [of 5 "80 * (6004799503160662 / 2 ^ 53)"]
  by (simp add: py_round_def power_int_minus)

lemma fl64_alpha_3_3: "fl64 (80 * (3002399751580331 / 2 ^ 53)) = 7505999378950828 / 2 ^ 48"
  using fl64_eval [of 4 "80 * (3002399751580331 / 2 ^ 53)"]
  by (simp add: py_round_def power_int_minus)

lemma fl64_four_fifths: "fl64 (4 / 5) = 7205759403792794 / 2 ^ 53"
  using fl64_eval [of "- 1" "4 / 5"] by (simp add: py_round_def power_int_minus)

lemma fl64_one_minus_four_fifths: "fl64 (1 - 7205759403792794 / 2 ^ 53) = 1801439850948198 / 2 ^ 53"
  using fl64_eval [of "- 3" "1 - 7205759403792794 / 2 ^ 53"]
  by (simp add: py_round_def power_int_minus)

lemma fl64_alpha_5_5: "fl64 (80 * (1801439850948198 / 2 ^ 53)) = 9007199254740990 / 2 ^ 49"
  using fl64_eval [of 3 "80 * (1801439850948198 / 2 ^ 53)"]
  by (simp add: py_round_def power_int_minus)

lemma fl64_80: "fl64 80 = 80"
  using fl64_int [of 80] by simp

text \<open>
  Claim C6, amended. With glow enabled, \<open>N \<ge> 1\<close> passes and a base alpha within the float64
  range, pass \<open>i\<close> is drawn with alpha \<open>max(0, int(GLOW_ALPHA * (1.0 - (i - 1) / N)))\<close>, the
  float64 product truncated toward zero, not rounded, and with the width argument
  \<open>BAR_THICKNESS + i * GLOW_EXPAND\<close>. From pass 1 to pass \<open>N\<close> the alpha never increases and,
  for a positive \<open>GLOW_EXPAND\<close>, the width strictly increases. The draw calls of a frame are
  the optional base ring, then the glow passes \<open>1 .. N\<close> in order, then one last pass in
  which every line has alpha 255 and the width \<open>max(1, BAR_THICKNESS)\<close>.
\<close>

theorem glow_passes_then_sharp_pass:
  assumes "GLOW_ON cfg" and "1 \<le> GLOW_STEPS cfg"
    and "\<bar>real_of_int (GLOW_ALPHA cfg)\<bar> \<le> 2 powi 1023"
  shows "(\<forall>i. 1 \<le> i \<and> i \<le> GLOW_STEPS cfg \<longrightarrow>
            glow_alpha cfg i =
              Inr (max 0 (py_int (fl64 (fl64 (real_of_int (GLOW_ALPHA cfg))
                     * fl64 (1 - fl64 (real_of_int (i - 1) / real_of_int (GLOW_STEPS cfg))))))))
       \<and> (\<forall>i j. 1 \<le> i \<and> i \<le> j \<and> j \<le> GLOW_STEPS cfg \<longrightarrow>
             (\<exists>a b. glow_alpha cfg i = Inr a \<and> glow_alpha cfg j = Inr b \<and> b \<le> a))
       \<and> (\<forall>i. glow_width cfg i = BAR_THICKNESS cfg + i * GLOW_EXPAND cfg)
       \<and> (0 < GLOW_EXPAND cfg \<longrightarrow> (\<forall>i j. i < j \<longrightarrow> glow_width cfg i < glow_width cfg j))
       \<and> (\<exists>ring al.
             (\<forall>i. 1 \<le> i \<and> i \<le> GLOW_STEPS cfg \<longrightarrow> glow_alpha cfg i = Inr (al i))
           \<and> frame_draws cfg levels =
               Inr (ring
                    @ concat (map (\<lambda>i. draw_spokes cfg levels (255, 255, 255, al i)
                                          (Some (glow_width cfg i)))
                                  [1..GLOW_STEPS cfg])
                    @ draw_spokes cfg levels (255, 255, 255, 255) (Some (BAR_THICKNESS cfg)))
           \<and> length ring \<le> 1 \<and> (\<forall>c\<in>set ring. \<exists>box col w. c = Ellipse box col w))
       \<and> (\<forall>c\<in>set (draw_spokes cfg levels (255, 255, 255, 255) (Some (BAR_THICKNESS cfg))).
             \<exists>p q. c = Line p q (255, 255, 255, 255) (max 1 (BAR_THICKNESS cfg)))"
proof (intro conjI)
  show "\<forall>i. 1 \<le> i \<and> i \<le> GLOW_STEPS cfg \<longrightarrow>
            glow_alpha cfg i =
              Inr (max 0 (py_int (fl64 (fl64 (real_of_int (GLOW_ALPHA cfg))
                     * fl64 (1 - fl64 (real_of_int (i - 1) / real_of_int (GLOW_STEPS cfg)))))))"
    using glow_alpha_value [OF _ _ assms(3)] by blast
  show "\<forall>i j. 1 \<le> i \<and> i \<le> j \<and> j \<le> GLOW_STEPS cfg \<longrightarrow>
             (\<exists>a b. glow_alpha cfg i = Inr a \<and> glow_alpha cfg j = Inr b \<and> b \<le> a)"
    using glow_alpha_antimono [OF _ _ _ assms(3)] by blast
  show "\<forall>i. glow_width cfg i = BAR_THICKNESS cfg + i * GLOW_EXPAND cfg"
    by (simp add: glow_width_def)
  show "0 < GLOW_EXPAND cfg \<longrightarrow> (\<forall>i j. i < j \<longrightarrow> glow_width cfg i < glow_width cfg j)"
    using glow_width_strict by blast
  show "\<exists>ring al.
             (\<forall>i. 1 \<le> i \<and> i \<le> GLOW_STEPS cfg \<longrightarrow> glow_alpha cfg i = Inr (al i))
           \<and> frame_draws cfg levels =
               Inr (ring
                    @ concat (map (\<lambda>i. draw_spokes cfg levels (255, 255, 255, al i)
                                          (Some (glow_width cfg i)))
                                  [1..GLOW_STEPS cfg])
                    @ draw_spokes cfg levels (255, 255, 255, 255) (Some (BAR_THICKNESS cfg)))
           \<and> length ring \<le> 1 \<and> (\<forall>c\<in>set ring. \<exists>box col w. c = Ellipse box col w)"
  proof -
    define al where "al = (\<lambda>i. max 0 (py_int (fl64 (fl64 (real_of_int (GLOW_ALPHA cfg))
                     * fl64 (1 - fl64 (real_of_int (i - 1) / real_of_int (GLOW_STEPS cfg)))))))"
    have v: "glow_alpha cfg i = Inr (al i)" if "1 \<le> i" "i \<le> GLOW_STEPS cfg" for i
      using glow_alpha_value [OF that assms(3)] by (simp add: al_def)
    have gp: "glow_passes cfg levels [1..GLOW_STEPS cfg] =
           Inr (concat (map (\<lambda>i. draw_spokes cfg levels (255, 255, 255, al i)
                                   (Some (glow_width cfg i))) [1..GLOW_STEPS cfg]))"
      by (rule glow_passes_Inr) (simp add: v)
    obtain cx cy where c: "CENTER cfg = (cx, cy)" by (cases "CENTER cfg")
    define ring where "ring = (if BASE_RING_ON cfg \<and> BASE_RING_W cfg > 0
                    then [Ellipse (cx - BASE_RADIUS cfg, cy - BASE_RADIUS cfg,
                                   cx + BASE_RADIUS cfg, cy + BASE_RADIUS cfg)
                                  (255, 255, 255, 160) (BASE_RING_W cfg)]
                    else [])"
    have f: "frame_draws cfg levels =
               Inr (ring
                    @ concat (map (\<lambda>i. draw_spokes cfg levels (255, 255, 255, al i)
                                          (Some (glow_width cfg i)))
                                  [1..GLOW_STEPS cfg])
                    @ draw_spokes cfg levels (255, 255, 255, 255) (Some (BAR_THICKNESS cfg)))"
      using assms(1,2) gp by (simp add: frame_draws_def c ring_def Let_def)
    have "length ring \<le> 1" and "\<forall>c\<in>set ring. \<exists>box col w. c = Ellipse box col w"
      by (simp_all add: ring_def)
    then show ?thesis using v f by blast
  qed
  show "\<forall>c\<in>set (draw_spokes cfg levels (255, 255, 255, 255) (Some (BAR_THICKNESS cfg))).
             \<exists>p q. c = Line p q (255, 255, 255, 255) (max 1 (BAR_THICKNESS cfg))"
    using draw_spokes_color_width [of _ cfg levels "(255, 255, 255, 255)" "Some (BAR_THICKNESS cfg)"]
    by auto
qed

theorem glow_passes_then_sharp_pass_witness:
  "map (glow_alpha (default_config\<lparr>GLOW_ON := True, GLOW_STEPS := 3\<rparr>)) [1, 2, 3]
     = [Inr 80, Inr 53, Inr 26]
   \<and> glow_alpha (default_config\<lparr>GLOW_ON := True, GLOW_STEPS := 5\<rparr>) 5 = Inr 15
   \<and> map (glow_width (default_config\<lparr>GLOW_ON := True, GLOW_STEPS := 3\<rparr>)) [1, 2, 3] = [4, 6, 8]
   \<and> (\<exists>cmds. frame_draws (default_config\<lparr>GLOW_ON := True, GLOW_STEPS := 3\<rparr>) [0, 1] = Inr cmds
          \<and> length cmds = 9)"
proof -
  let ?cfg = "default_config\<lparr>GLOW_ON := True, GLOW_STEPS := 3\<rparr>"
  let ?cfg5 = "default_config\<lparr>GLOW_ON := True, GLOW_STEPS := 5\<rparr>"
  have on: "GLOW_ON ?cfg" and n: "1 \<le> GLOW_STEPS ?cfg"
    and a: "\<bar>real_of_int (GLOW_ALPHA ?cfg)\<bar> \<le> 2 powi 1023"
    by (simp_all add: default_config_def)
  have on5: "GLOW_ON ?cfg5" and n5: "1 \<le> GLOW_STEPS ?cfg5"
    and a5: "\<bar>real_of_int (GLOW_ALPHA ?cfg5)\<bar> \<le> 2 powi 1023"
    by (simp_all add: default_config_def)
  note t = glow_passes_then_sharp_pass [OF on n a, of "[0, 1]"]
  note t5 = glow_passes_then_sharp_pass [OF on5 n5 a5, of "[0, 1]"]
  note al = t [THEN conjunct1, rule_format]
  note al5 = t5 [THEN conjunct1, rule_format]
  note wd = t [THEN conjunct2, THEN conjunct2, THEN conjunct1, rule_format]
  note fr = t [THEN conjunct2, THEN conjunct2, THEN conjunct2, THEN conjunct2, THEN conjunct1]
  have k: "GLOW_ALPHA ?cfg = 80" "GLOW_STEPS ?cfg = 3" "GLOW_ALPHA ?cfg5 = 80" "GLOW_STEPS ?cfg5 = 5"
    "BAR_THICKNESS ?cfg = 2" "GLOW_EXPAND ?cfg = 2"
    by (simp_all add: default_config_def)
  have f80: "fl64 (real_of_int (GLOW_ALPHA ?cfg)) = 80" "fl64 (real_of_int (GLOW_ALPHA ?cfg5)) = 80"
    by (simp_all add: k fl64_80)
  have q1: "fl64 (real_of_int (1 - 1) / real_of_int (GLOW_STEPS ?cfg)) = 0"
    by (simp add: fl64_zero)
  have q2: "fl64 (real_of_int (2 - 1) / real_of_int (GLOW_STEPS ?cfg)) = 6004799503160661 / 2 ^ 54"
    using fl64_third by (simp add: k)
  have q3: "fl64 (real_of_int (3 - 1) / real_of_int (GLOW_STEPS ?cfg)) = 6004799503160661 / 2 ^ 53"
    using fl64_two_thirds by (simp add: k)
  have q5: "fl64 (real_of_int (5 - 1) / real_of_int (GLOW_STEPS ?cfg5)) = 7205759403792794 / 2 ^ 53"
    using fl64_four_fifths by (simp add: k)
  have s1: "fl64 (1 - 0) = 1" by (simp add: fl64_one)
  have x1: "fl64 (80 * 1) = 80" by (simp add: fl64_80)
  have a1: "glow_alpha ?cfg 1 = Inr 80"
    using al [of 1] unfolding q1 s1 f80 x1 by (simp add: k py_int_def)
  have a2: "glow_alpha ?cfg 2 = Inr 53"
    using al [of 2] unfolding q2 fl64_one_minus_third f80 fl64_alpha_3_2
    by (simp add: k py_int_def)
  have a3: "glow_alpha ?cfg 3 = Inr 26"
    using al [of 3] unfolding q3 fl64_one_minus_two_thirds f80 fl64_alpha_3_3
    by (simp add: k py_int_def)
  have a55: "glow_alpha ?cfg5 5 = Inr 15"
    using al5 [of 5] unfolding q5 fl64_one_minus_four_fifths f80 fl64_alpha_5_5
    by (simp add: k py_int_def)
  have w: "map (glow_width ?cfg) [1, 2, 3] = [4, 6, 8]"
    using wd [of 1] wd [of 2] wd [of 3] by (simp add: k)
  obtain ring al' where f: "frame_draws ?cfg [0, 1] =
               Inr (ring
                    @ concat (map (\<lambda>i. draw_spokes ?cfg [0, 1] (255, 255, 255, al' i)
                                          (Some (glow_width ?cfg i)))
                                  [1..GLOW_STEPS ?cfg])
                    @ draw_spokes ?cfg [0, 1] (255, 255, 255, 255) (Some (BAR_THICKNESS ?cfg)))"
    using fr by blast
  have r: "frame_draws ?cfg [0, 1] = Inr cmds \<Longrightarrow> length cmds = 9" for cmds
    using a1 a2 a3
    by (auto simp: frame_draws_def default_config_def length_draw_spokes upto_rec1 [of 1 3]
        upto_rec1 [of 2 3] upto_rec1 [of 3 3] Let_def)
  have "\<exists>cmds. frame_draws ?cfg [0, 1] = Inr cmds \<and> length cmds = 9"
    using f r by blast
  then show ?thesis using a1 a2 a3 a55 w by simp
qed

text \<open>
  Three passes at base alpha 80: the third has \<open>80 * (1 - 2 / 3) = 26.67\<close>, drawn with
  alpha \<open>int(26.67) = 26\<close>, while \<open>round(26.67) = 27\<close>. A sharp pass at thickness 0 is
  drawn with width 1.
\<close>

theorem glow_alpha_round_counterexample:
  "GLOW_ON (default_config\<lparr>GLOW_ON := True, GLOW_STEPS := 3\<rparr>)
   \<and> glow_alpha (default_config\<lparr>GLOW_ON := True, GLOW_STEPS := 3\<rparr>) 3 = Inr 26
   \<and> max 0 (py_round (80 * (1 - (3 - 1) / 3))) = 27
   \<and> draw_spokes (default_config\<lparr>BAR_THICKNESS := 0\<rparr>) [0] (255, 255, 255, 255) (Some 0)
       = [Line (2140, 864) (2144, 864) (255, 255, 255, 255) 1]"
proof -
  let ?cfg = "default_config\<lparr>GLOW_ON := True, GLOW_STEPS := 3\<rparr>"
  have k: "GLOW_ALPHA ?cfg = 80" "GLOW_STEPS ?cfg = 3"
    by (simp_all add: default_config_def)
  have f80: "fl64 (real_of_int (GLOW_ALPHA ?cfg)) = 80"
    by (simp add: k fl64_80)
  have q3: "fl64 (real_of_int (3 - 1) / real_of_int (GLOW_STEPS ?cfg)) = 6004799503160661 / 2 ^ 53"
    using fl64_two_thirds by (simp add: k)
  have "glow_alpha ?cfg 3 = Inr 26"
    using glow_alpha_value [of 3 ?cfg] unfolding q3 fl64_one_minus_two_thirds f80 fl64_alpha_3_3
    by (simp add: k py_int_def)
  moreover have "GLOW_ON ?cfg" by (simp add: default_config_def)
  moreover have "max 0 (py_round (80 * (1 - (3 - 1) / 3))) = 27"
    by (simp add: py_round_def Let_def)
  moreover have "draw_spokes (default_config\<lparr>BAR_THICKNESS := 0\<rparr>) [0] (255, 255, 255, 255) (Some 0)
       = [Line (2140, 864) (2144, 864) (255, 255, 255, 255) 1]"
    by (simp add: default_config_def draw_spokes_def linspace_open_def spoke_def bar_height_def Let_def)
  ultimately show ?thesis by blast
qed

subsection \<open>Background fitter\<close>

text \<open>
  Claim C10. Every mode string other than \<open>contain\<close> takes the second branch, which returns
  a crop of size \<open>(w, h)\<close>. For a square source and the 16:9 canvas of 3840 by 2160 that branch
  resizes the source to 2160 by 2160, narrower than the canvas, and crops the box from
  \<open>x = -840\<close> to \<open>x = 3000\<close>: 840 columns on each side lie outside the resized image and
  are black, where cover has no padding. A wide 3:1 source is padded above and below.
\<close>

theorem load_and_fit_background_cover_pads:
  "load_and_fit_background (100, 100) 3840 2160 ''cover''
     = Inr (Cropped (2160, 2160) (- 840, 0, 3000, 2160))
   \<and> has_padding (Cropped (2160, 2160) (- 840, 0, 3000, 2160))
   \<and> fitted_size (Cropped (2160, 2160) (- 840, 0, 3000, 2160)) = (3840, 2160)
   \<and> load_and_fit_background (300, 100) 3840 2160 ''Cover''
     = Inr (Cropped (3840, 1280) (0, - 440, 3840, 1720))
   \<and> has_padding (Cropped (3840, 1280) (0, - 440, 3840, 1720))
   \<and> load_and_fit_background (100, 100) 3840 2160 ''contain''
     = Inr (Pasted (3840, 2160) (2160, 2160) (840, 0))"
  by (simp add: load_and_fit_background_def crop_centered_def paste_centered_def
      py_round_def Let_def)

subsection \<open>Frame sequencer\<close>

lemma frame_levels_cong:
  assumes "audio g' = audio g" and "duration g' = duration g" and "BAND_EDGES g' = BAND_EDGES g"
  shows "frame_levels cfg g' t = frame_levels cfg g t"
  unfolding frame_levels_def assms by (rule refl)

lemma make_frame_rgb_Inl:
  "frame_levels cfg g t = Inl e \<Longrightarrow> make_frame_rgb cfg g t = Inl e"
  by (simp add: make_frame_rgb_def)

lemma frame_draws_total:
  assumes "\<bar>real_of_int (GLOW_ALPHA cfg)\<bar> \<le> 2 powi 1023"
  shows "\<exists>cmds. frame_draws cfg levels = Inr cmds"
proof (cases "GLOW_ON cfg \<and> GLOW_STEPS cfg > 0")
  case True
  define al where "al = (\<lambda>i. max 0 (py_int (fl64 (fl64 (real_of_int (GLOW_ALPHA cfg))
                     * fl64 (1 - fl64 (real_of_int (i - 1) / real_of_int (GLOW_STEPS cfg)))))))"
  have v: "glow_alpha cfg i = Inr (al i)" if "1 \<le> i" "i \<le> GLOW_STEPS cfg" for i
    using glow_alpha_value [OF that assms] by (simp add: al_def)
  have "glow_passes cfg levels [1..GLOW_STEPS cfg] =
           Inr (concat (map (\<lambda>i. draw_spokes cfg levels (255, 255, 255, al i)
                                   (Some (glow_width cfg i))) [1..GLOW_STEPS cfg]))"
    by (rule glow_passes_Inr) (simp add: v)
  then show ?thesis using True by (simp add: frame_draws_def Let_def split: prod.splits)
next
  case False
  then show ?thesis by (auto simp: frame_draws_def Let_def split: prod.splits)
qed

lemma make_frame_rgb_draw_Inl:
  "frame_levels cfg g t = Inr levels \<Longrightarrow> frame_draws cfg levels = Inl e
     \<Longrightarrow> make_frame_rgb cfg g t = Inl e"
  by (simp add: make_frame_rgb_def image_copy_def)

lemma make_frame_rgb_Inr:
  assumes "frame_levels cfg g t = Inr levels" and "frame_draws cfg levels = Inr cmds"
  shows "make_frame_rgb cfg g t =
           Inr ((heap g (BG_BASE g))\<lparr> img_mode := RGB,
                                       img_drawn := img_drawn (heap g (BG_BASE g)) @ cmds \<rparr>,
                g\<lparr> heap := (heap g)(next_addr g :=
                              (heap g (BG_BASE g))\<lparr> img_drawn := img_drawn (heap g (BG_BASE g))
                                                                  @ cmds \<rparr>),
                   next_addr := next_addr g + 1 \<rparr>)"
  using assms by (simp add: make_frame_rgb_def image_copy_def image_draw_def image_convert_def Let_def)

lemma make_frame_rgb_frame_cong:
  assumes "audio g' = audio g" and "duration g' = duration g" and "BAND_EDGES g' = BAND_EDGES g"
    and "heap g' (BG_BASE g') = heap g (BG_BASE g)"
  shows "map_sum id fst (make_frame_rgb cfg g' t) = map_sum id fst (make_frame_rgb cfg g t)"
proof (cases "frame_levels cfg g t")
  case (Inl e)
  then have "frame_levels cfg g' t = Inl e" using frame_levels_cong [OF assms(1-3)] by simp
  then show ?thesis using Inl by (simp add: make_frame_rgb_Inl)
next
  case (Inr levels)
  then have l: "frame_levels cfg g' t = Inr levels" using frame_levels_cong [OF assms(1-3)] by simp
  show ?thesis
  proof (cases "frame_draws cfg levels")
    case (Inl e)
    then show ?thesis using l Inr by (simp add: make_frame_rgb_draw_Inl)
  next
    case d: (Inr cmds)
    then show ?thesis using l Inr assms(4) by (simp add: make_frame_rgb_Inr)
  qed
qed

lemma make_frame_rgb_effect:
  assumes "BG_BASE g < next_addr g" and "make_frame_rgb cfg g t = Inr (frame, g')"
  shows "heap g' (BG_BASE g) = heap g (BG_BASE g)"
    and "BG_BASE g' = BG_BASE g" and "BAND_EDGES g' = BAND_EDGES g"
    and "audio g' = audio g" and "duration g' = duration g"
    and "a \<noteq> next_addr g \<Longrightarrow> heap g' a = heap g a"
    and "next_addr g' = next_addr g + 1"
    and "\<exists>levels cmds. frame_levels cfg g t = Inr levels \<and> frame_draws cfg levels = Inr cmds
           \<and> heap g' (next_addr g) =
               (heap g (BG_BASE g))\<lparr> img_drawn := img_drawn (heap g (BG_BASE g)) @ cmds \<rparr>
           \<and> frame = image_convert (heap g' (next_addr g)) RGB"
proof -
  obtain levels where l: "frame_levels cfg g t = Inr levels"
    using assms(2) by (cases "frame_levels cfg g t") (simp_all add: make_frame_rgb_Inl)
  obtain cmds where d: "frame_draws cfg levels = Inr cmds"
    using assms(2) l by (cases "frame_draws cfg levels") (simp_all add: make_frame_rgb_draw_Inl)
  from make_frame_rgb_Inr [OF l d] assms(2)
  have f: "frame = (heap g (BG_BASE g))\<lparr> img_mode := RGB,
                                       img_drawn := img_drawn (heap g (BG_BASE g)) @ cmds \<rparr>"
    and g': "g' = g\<lparr> heap := (heap g)(next_addr g :=
                              (heap g (BG_BASE g))\<lparr> img_drawn := img_drawn (heap g (BG_BASE g))
                                                                  @ cmds \<rparr>),
                   next_addr := next_addr g + 1 \<rparr>"
    by simp_all
  show "heap g' (BG_BASE g) = heap g (BG_BASE g)" using assms(1) by (simp add: g')
  show "BG_BASE g' = BG_BASE g" "BAND_EDGES g' = BAND_EDGES g" "audio g' = audio g"
    "duration g' = duration g" "next_addr g' = next_addr g + 1"
    by (simp_all add: g')
  show "heap g' a = heap g a" if "a \<noteq> next_addr g" using that by (simp add: g')
  show "\<exists>levels cmds. frame_levels cfg g t = Inr levels \<and> frame_draws cfg levels = Inr cmds
           \<and> heap g' (next_addr g) =
               (heap g (BG_BASE g))\<lparr> img_drawn := img_drawn (heap g (BG_BASE g)) @ cmds \<rparr>
           \<and> frame = image_convert (heap g' (next_addr g)) RGB"
    using l d by (simp add: g' f image_convert_def)
qed

lemma fft_magnitude_lengths:
  assumes "sr \<noteq> 0"
  shows "\<exists>freqs mags. fft_magnitude sig sr = Inr (freqs, mags) \<and> length mags = length freqs"
  using assms by (simp add: fft_magnitude_def Let_def length_rfft length_rfftfreq)

lemma get_audio_window_total:
  assumes "has_subclip c \<or> has_subclipped c" and "0 \<le> t" and "t < D"
    and "2 powi (- 1000) \<le> win" and "t \<le> 2 ^ 50 * win"
    and "0 \<le> sr" and "sr \<le> 2 powi 1023" and "fl64 sr * win \<le> 2 powi 1023"
  shows "\<exists>sig. get_audio_window cfg c D t win sr = Inr sig"
proof -
  have win0: "0 < win"
  proof -
    have "(0::real) < 2 powi (- 1000)" by simp
    then show ?thesis using assms(4) by linarith
  qed
  have p0: "0 \<le> fl64 sr * win" using fl64_nonneg [OF assms(6)] win0 by simp
  have x0: "0 \<le> fl64 (fl64 sr * win)" using p0 by (rule fl64_nonneg)
  have fb: "fallback_length sr win = Inr \<lfloor>fl64 (fl64 sr * win)\<rfloor>"
    using fallback_length_value [of sr win] assms(6,7,8) p0 x0 by (simp add: py_int_def)
  obtain s e where r: "window_range cfg D t win = Inr (s, e)"
    using window_range_inside(1) [OF assms(2,3,4,5)] by blast
  show ?thesis
    using get_audio_window_cases [OF assms(1) r, of sr] fb x0
    by (cases "to_mono (to_soundarray c s e sr) = []") (simp_all add: Let_def)
qed

lemma frame_levels_total:
  assumes "has_subclip (audio g) \<or> has_subclipped (audio g)"
    and "0 \<le> t" and "t < duration g"
    and "2 powi (- 1000) \<le> WINDOW_SEC cfg" and "t \<le> 2 ^ 50 * WINDOW_SEC cfg"
    and "0 < SR cfg" and "SR cfg \<le> 2 powi 1023"
    and "fl64 (SR cfg) * WINDOW_SEC cfg \<le> 2 powi 1023"
    and "2 \<le> length (BAND_EDGES g)"
  shows "\<exists>levels. frame_levels cfg g t = Inr levels \<and> length levels = length (BAND_EDGES g) - 1"
proof -
  have sr0: "0 \<le> SR cfg" using assms(6) by simp
  obtain sig where w: "get_audio_window cfg (audio g) (duration g) t (WINDOW_SEC cfg) (SR cfg) = Inr sig"
    using get_audio_window_total [OF assms(1,2,3,4,5) sr0 assms(7,8)] by blast
  obtain freqs mags where f: "fft_magnitude sig (SR cfg) = Inr (freqs, mags)"
    and l: "length mags = length freqs"
    using fft_magnitude_lengths [of "SR cfg" sig] assms(6) by auto
  from spectrum_to_bands_total [OF assms(9) l] w f show ?thesis
    by (simp add: frame_levels_def)
qed

lemma make_frame_rgb_total:
  assumes "has_subclip (audio g) \<or> has_subclipped (audio g)"
    and "0 \<le> t" and "t < duration g"
    and "2 powi (- 1000) \<le> WINDOW_SEC cfg" and "t \<le> 2 ^ 50 * WINDOW_SEC cfg"
    and "0 < SR cfg" and "SR cfg \<le> 2 powi 1023"
    and "fl64 (SR cfg) * WINDOW_SEC cfg \<le> 2 powi 1023"
    and "2 \<le> length (BAND_EDGES g)"
    and "\<bar>real_of_int (GLOW_ALPHA cfg)\<bar> \<le> 2 powi 1023"
  shows "\<exists>frame g'. make_frame_rgb cfg g t = Inr (frame, g')"
proof -
  obtain levels where l: "frame_levels cfg g t = Inr levels"
    using frame_levels_total [OF assms(1-9)] by blast
  obtain cmds where d: "frame_draws cfg levels = Inr cmds"
    using frame_draws_total [OF assms(10)] by blast
  show ?thesis using l d by (simp add: make_frame_rgb_Inr)
qed

lemma example_globals_runs:
  "\<exists>frame g'. make_frame_rgb default_config example_globals (1 / 2) = Inr (frame, g')"
proof (rule make_frame_rgb_total)
  have k: "WINDOW_SEC default_config = fl64 (1 / 10)" "SR default_config = 44100"
    by (simp_all add: default_config_def)
  show "2 powi (- 1000) \<le> WINDOW_SEC default_config"
    unfolding k fl64_tenth by (simp add: power_int_minus)
  show "1 / 2 \<le> 2 ^ 50 * WINDOW_SEC default_config"
    unfolding k fl64_tenth by simp
  show "fl64 (SR default_config) * WINDOW_SEC default_config \<le> 2 powi 1023"
    unfolding k fl64_tenth fl64_44100 by simp
qed (simp_all add: example_globals_def empty_clip_def default_config_def)

text \<open>
  Claim C9. When a frame is rendered (the background object being one of the store), the
  background image, the band edges, the clip and every other existing image object are as
  before: the only object that differs is the new one at the address of the copy, which holds
  the background with the frame's draw calls appended.
\<close>

theorem make_frame_rgb_background_unchanged:
  assumes "BG_BASE g < next_addr g" and "make_frame_rgb cfg g t = Inr (frame, g')"
  shows "heap g' (BG_BASE g) = heap g (BG_BASE g)
       \<and> BG_BASE g' = BG_BASE g
       \<and> BAND_EDGES g' = BAND_EDGES g
       \<and> audio g' = audio g \<and> duration g' = duration g
       \<and> (\<forall>a. a \<noteq> next_addr g \<longrightarrow> heap g' a = heap g a)
       \<and> next_addr g' = next_addr g + 1
       \<and> (\<exists>levels cmds. frame_levels cfg g t = Inr levels \<and> frame_draws cfg levels = Inr cmds
             \<and> heap g' (next_addr g) =
                 (heap g (BG_BASE g))\<lparr> img_drawn := img_drawn (heap g (BG_BASE g)) @ cmds \<rparr>
             \<and> frame = image_convert (heap g' (next_addr g)) RGB)"
  using make_frame_rgb_effect [OF assms] by blast

theorem make_frame_rgb_background_unchanged_witness:
  "\<exists>frame g'. make_frame_rgb default_config example_globals (1 / 2) = Inr (frame, g')
      \<and> heap g' 0 = \<lparr> img_mode = RGBA, img_pixels = Pasted (3840, 2160) (2160, 2160) (840, 0),
                      img_drawn = [] \<rparr>
      \<and> BG_BASE g' = 0 \<and> BAND_EDGES g' = [1, 2, 4] \<and> next_addr g' = 2"
proof -
  obtain frame g' where r: "make_frame_rgb default_config example_globals (1 / 2) = Inr (frame, g')"
    using example_globals_runs by blast
  have b: "BG_BASE example_globals < next_addr example_globals"
    by (simp add: example_globals_def)
  from make_frame_rgb_background_unchanged [OF b r]
  have "heap g' 0 = \<lparr> img_mode = RGBA, img_pixels = Pasted (3840, 2160) (2160, 2160) (840, 0),
                      img_drawn = [] \<rparr>
      \<and> BG_BASE g' = 0 \<and> BAND_EDGES g' = [1, 2, 4] \<and> next_addr g' = 2"
    by (simp add: example_globals_def)
  with r show ?thesis by blast
qed

text \<open>
  Claim C8. The band levels depend only on the timestamp, the clip, its duration, the band
  edges and the configuration, and the frame (or the error) only on these and on the
  background image: two runs from globals that agree on them give the same levels and the
  same frame. In particular a second run, started from the globals the first run left
  behind, returns the same levels and the same frame.
\<close>

theorem make_frame_rgb_deterministic:
  "(audio g' = audio g \<and> duration g' = duration g \<and> BAND_EDGES g' = BAND_EDGES g
      \<and> heap g' (BG_BASE g') = heap g (BG_BASE g)
      \<longrightarrow> frame_levels cfg g' t = frame_levels cfg g t
        \<and> map_sum id fst (make_frame_rgb cfg g' t) = map_sum id fst (make_frame_rgb cfg g t))
   \<and> (BG_BASE g < next_addr g \<and> make_frame_rgb cfg g t = Inr (frame, g1)
      \<longrightarrow> frame_levels cfg g1 t = frame_levels cfg g t
        \<and> (\<exists>g2. make_frame_rgb cfg g1 t = Inr (frame, g2)))"
proof (intro conjI impI)
  assume a: "audio g' = audio g \<and> duration g' = duration g \<and> BAND_EDGES g' = BAND_EDGES g
      \<and> heap g' (BG_BASE g') = heap g (BG_BASE g)"
  then have a1: "audio g' = audio g" and a2: "duration g' = duration g"
    and a3: "BAND_EDGES g' = BAND_EDGES g" and a4: "heap g' (BG_BASE g') = heap g (BG_BASE g)"
    by simp_all
  show "frame_levels cfg g' t = frame_levels cfg g t"
    using a1 a2 a3 by (rule frame_levels_cong)
  show "map_sum id fst (make_frame_rgb cfg g' t) = map_sum id fst (make_frame_rgb cfg g t)"
    using a1 a2 a3 a4 by (rule make_frame_rgb_frame_cong)
next
  assume a: "BG_BASE g < next_addr g \<and> make_frame_rgb cfg g t = Inr (frame, g1)"
  then have b: "BG_BASE g < next_addr g" and r: "make_frame_rgb cfg g t = Inr (frame, g1)"
    by simp_all
  note e = make_frame_rgb_effect [OF b r]
  show "frame_levels cfg g1 t = frame_levels cfg g t"
    using e(4,5,3) by (rule frame_levels_cong)
  have h: "heap g1 (BG_BASE g1) = heap g (BG_BASE g)" using e(1,2) by simp
  have "map_sum id fst (make_frame_rgb cfg g1 t) = map_sum id fst (make_frame_rgb cfg g t)"
    using e(4,5,3) h by (rule make_frame_rgb_frame_cong)
  then show "\<exists>g2. make_frame_rgb cfg g1 t = Inr (frame, g2)"
    using r by (cases "make_frame_rgb cfg g1 t") auto
qed

theorem make_frame_rgb_deterministic_witness:
  "\<exists>frame g1 g2. make_frame_rgb default_config example_globals (1 / 2) = Inr (frame, g1)
      \<and> make_frame_rgb default_config g1 (1 / 2) = Inr (frame, g2)
      \<and> frame_levels default_config g1 (1 / 2) = frame_levels default_config example_globals (1 / 2)"
proof -
  obtain frame g1 where r: "make_frame_rgb default_config example_globals (1 / 2) = Inr (frame, g1)"
    using example_globals_runs by blast
  have b: "BG_BASE example_globals < next_addr example_globals"
    by (simp add: example_globals_def)
  from make_frame_rgb_deterministic [of example_globals example_globals default_config "1 / 2" frame g1] b r
  show ?thesis by blast
qed

end
